theory Spec2Isabelle
  imports Complex_Main "HOL-Library.Char_ord"
begin

section \<open>Discompress: the upload handler, its bitrate plan and its admission queue\<close>

text \<open>
  The repository holds three revisions of one Express handler for \<^verbatim>\<open>POST /api/upload\<close>:
  \<^item> the \<^emph>\<open>retry\<close> revision (\<^verbatim>\<open>src/unnamed/part_000\<close>): one encode, and one retry at 85 percent;
  \<^item> the \<^emph>\<open>simple\<close> revision (first document of \<^verbatim>\<open>src/server.js\<close>): three passes;
  \<^item> the \<^emph>\<open>queued\<close> revision (second document of \<^verbatim>\<open>src/server.js\<close>): four passes behind a
    FIFO queue that caps the number of concurrent encodes.

  The duration, the bitrates and the pass factors are numbers of JavaScript, that is
  IEEE 754 doubles: every product, quotient and difference of the plan is rounded as the
  program rounds it. Counts, file sizes and the configured integers are \<open>int\<close>. What
  ffprobe, ffmpeg, the file system and the clock answer is not code of the repository; it
  is a parameter of the model (the record \<open>world\<close>).
\<close>

subsection \<open>File names\<close>

text \<open>
  \<^verbatim>\<open>\w\<close> is the class \<^verbatim>\<open>[A-Za-z0-9_]\<close>; the handler's class \<^verbatim>\<open>[^\w.\- ]\<close> is its complement
  extended by dot, hyphen and space.
\<close>

definition word_char :: "char \<Rightarrow> bool" where
  "word_char c \<longleftrightarrow>
     (CHR ''a'' \<le> c \<and> c \<le> CHR ''z'') \<or> (CHR ''A'' \<le> c \<and> c \<le> CHR ''Z'') \<or>
     (CHR ''0'' \<le> c \<and> c \<le> CHR ''9'') \<or> c = CHR ''_''"

definition permitted :: "char \<Rightarrow> bool" where
  "permitted c \<longleftrightarrow> word_char c \<or> c = CHR ''.'' \<or> c = CHR ''-'' \<or> c = CHR '' ''"

text \<open>
  \<^verbatim>\<open>s.replace(/[^\w.\- ]+/g, '')\<close>: every maximal run of characters outside the class is
  replaced by the empty string, so exactly the permitted characters stay, in their order.
\<close>

definition strip_disallowed :: "string \<Rightarrow> string" where
  "strip_disallowed s = filter permitted s"

text \<open>
  \<^verbatim>\<open>(req.file.originalname || 'video')\<close>: an absent or empty name is falsy and replaced.
\<close>

definition name_or_default :: "string option \<Rightarrow> string" where
  "name_or_default n = (case n of None \<Rightarrow> ''video'' | Some s \<Rightarrow> if s = [] then ''video'' else s)"

definition originalName :: "string option \<Rightarrow> string" where
  "originalName n = strip_disallowed (name_or_default n)"

text \<open>
  \<^verbatim>\<open>s.replace(/\.[^.]+$/, '')\<close>: the pattern matches a dot followed by one or more
  characters that are not dots, up to the end of the string. Such a match starts at the
  last dot of the string and exists when at least one character follows that dot.
\<close>

definition strip_extension :: "string \<Rightarrow> string" where
  "strip_extension s =
     (let ext = takeWhile (\<lambda>c. c \<noteq> CHR ''.'') (rev s)
      in if ext \<noteq> [] \<and> length ext < length s then take (length s - length ext - 1) s else s)"

definition base :: "string option \<Rightarrow> string" where
  "base n = strip_extension (originalName n)"

definition outName :: "string option \<Rightarrow> string" where
  "outName n = ''discompress_'' @ base n @ ''.mp4''"

subsection \<open>JavaScript numbers\<close>

text \<open>
  A number of JavaScript is an IEEE 754 binary64 value: a finite value, one of the two
  infinities, or \<^verbatim>\<open>NaN\<close>. A finite value is kept as the real number it denotes, and every
  arithmetic operation rounds the exact result to the nearest representable value, ties
  to the even significand. The two zeros are not told apart: the handlers never divide by
  a zero whose sign could matter.
\<close>

datatype jsnum = Num real | PosInf | NegInf | NaN

text \<open>
  The binary exponent of a positive real \<open>x\<close>, the \<open>e\<close> with \<open>2 ^ e \<le> x < 2 ^ (e + 1)\<close>,
  found by halving a value of at least 1 and by doubling a value below 1.
\<close>

function up_exp :: "real \<Rightarrow> int" where
  "up_exp x = (if x < 2 then 0 else up_exp (x / 2) + 1)"
  by pat_completeness auto
termination
proof (relation "measure (\<lambda>x. nat \<lfloor>x\<rfloor>)")
  show "wf (measure (\<lambda>x::real. nat \<lfloor>x\<rfloor>))" by simp
next
  fix x :: real
  assume "\<not> x < 2"
  then have "\<lfloor>x / 2\<rfloor> < \<lfloor>x\<rfloor>" "0 < \<lfloor>x\<rfloor>" by linarith+
  then show "(x / 2, x) \<in> measure (\<lambda>x. nat \<lfloor>x\<rfloor>)" by simp
qed

function down_exp :: "real \<Rightarrow> int" where
  "down_exp x = (if 0 < x \<and> x < 1 then down_exp (2 * x) - 1 else 0)"
  by pat_completeness auto
termination
proof (relation "measure (\<lambda>x. nat \<lceil>1 / x\<rceil>)")
  show "wf (measure (\<lambda>x::real. nat \<lceil>1 / x\<rceil>))" by simp
next
  fix x :: real
  assume a: "0 < x \<and> x < 1"
  define t where "t = 1 / x"
  from a have t: "1 < t" by (simp add: t_def)
  have h: "1 / (2 * x) = t / 2" by (simp add: t_def)
  from t have c: "2 \<le> \<lceil>t\<rceil>" by linarith
  have a1: "t \<le> of_int \<lceil>t\<rceil>" by (rule le_of_int_ceiling)
  from c have a2: "(2 :: real) \<le> of_int \<lceil>t\<rceil>" by linarith
  from a1 a2 have "t / 2 \<le> of_int \<lceil>t\<rceil> - 1" by linarith
  also have "\<dots> = of_int (\<lceil>t\<rceil> - 1)" by simp
  finally have "\<lceil>t / 2\<rceil> \<le> \<lceil>t\<rceil> - 1" by (rule ceiling_le)
  with c have "\<lceil>t / 2\<rceil> < \<lceil>t\<rceil>" "0 < \<lceil>t\<rceil>" by simp_all
  then have "nat \<lceil>1 / (2 * x)\<rceil> < nat \<lceil>1 / x\<rceil>"
    unfolding h unfolding t_def by simp
  then show "(2 * x, x) \<in> measure (\<lambda>x. nat \<lceil>1 / x\<rceil>)" by simp
qed

declare up_exp.simps [simp del] down_exp.simps [simp del]

definition exponent :: "real \<Rightarrow> int" where
  "exponent x = (if 1 \<le> x then up_exp x else down_exp x)"

text \<open>The nearest integer, a tie going to the even one.\<close>

definition round_half_even :: "real \<Rightarrow> int" where
  "round_half_even t =
     (let f = \<lfloor>t\<rfloor>
      in if t - of_int f < 1 / 2 then f
         else if 1 / 2 < t - of_int f then f + 1
         else if even f then f else f + 1)"

text \<open>
  A positive real rounded to 53 significant bits: the spacing of the representable values
  around \<open>x\<close> is \<open>2 ^ (e - 52)\<close>, where \<open>e\<close> is the exponent of \<open>x\<close> and at least \<open>-1022\<close>
  (below that the values are subnormal and equally spaced). A result of \<open>2 ^ 1024\<close> or
  more overflows to infinity.
\<close>

definition round_val :: "real \<Rightarrow> real" where
  "round_val x =
     (let e = max (exponent x) (- 1022);
          q = 2 powi (e - 52)
      in of_int (round_half_even (x / q)) * q)"

definition round_pos :: "real \<Rightarrow> jsnum" where
  "round_pos x = (if round_val x < 2 powi 1024 then Num (round_val x) else PosInf)"

definition js_neg :: "jsnum \<Rightarrow> jsnum" where
  "js_neg a = (case a of Num x \<Rightarrow> Num (- x) | PosInf \<Rightarrow> NegInf | NegInf \<Rightarrow> PosInf | NaN \<Rightarrow> NaN)"

text \<open>The number that an exact result \<open>x\<close> is rounded to; also the value of a decimal literal.\<close>

definition round64 :: "real \<Rightarrow> jsnum" where
  "round64 x = (if x = 0 then Num 0 else if 0 < x then round_pos x else js_neg (round_pos (- x)))"

text \<open>\<^verbatim>\<open>a <= b\<close> and \<^verbatim>\<open>a < b\<close>: false as soon as one side is \<^verbatim>\<open>NaN\<close>.\<close>

fun js_le :: "jsnum \<Rightarrow> jsnum \<Rightarrow> bool" where
  "js_le NaN b = False"
| "js_le a NaN = False"
| "js_le NegInf b = True"
| "js_le a PosInf = True"
| "js_le (Num x) (Num y) = (x \<le> y)"
| "js_le a b = False"

fun js_lt :: "jsnum \<Rightarrow> jsnum \<Rightarrow> bool" where
  "js_lt NaN b = False"
| "js_lt a NaN = False"
| "js_lt (Num x) (Num y) = (x < y)"
| "js_lt PosInf b = False"
| "js_lt a NegInf = False"
| "js_lt a b = True"

text \<open>\<^verbatim>\<open>Math.max(a, b)\<close> is \<^verbatim>\<open>NaN\<close> when an argument is; \<^verbatim>\<open>Math.floor\<close> keeps what is not finite.\<close>

definition js_max :: "jsnum \<Rightarrow> jsnum \<Rightarrow> jsnum" where
  "js_max a b = (if a = NaN \<or> b = NaN then NaN else if js_le a b then b else a)"

fun js_floor :: "jsnum \<Rightarrow> jsnum" where
  "js_floor (Num x) = Num (of_int \<lfloor>x\<rfloor>)"
| "js_floor a = a"

text \<open>\<^verbatim>\<open>a - b\<close>, \<^verbatim>\<open>a * b\<close> and \<^verbatim>\<open>a / b\<close>.\<close>

fun js_sub :: "jsnum \<Rightarrow> jsnum \<Rightarrow> jsnum" where
  "js_sub NaN b = NaN"
| "js_sub a NaN = NaN"
| "js_sub (Num x) (Num y) = round64 (x - y)"
| "js_sub PosInf PosInf = NaN"
| "js_sub NegInf NegInf = NaN"
| "js_sub PosInf b = PosInf"
| "js_sub NegInf b = NegInf"
| "js_sub a PosInf = NegInf"
| "js_sub a NegInf = PosInf"

fun js_mul :: "jsnum \<Rightarrow> jsnum \<Rightarrow> jsnum" where
  "js_mul NaN b = NaN"
| "js_mul a NaN = NaN"
| "js_mul (Num x) (Num y) = round64 (x * y)"
| "js_mul (Num x) b = (if x = 0 then NaN else if 0 < x then b else js_neg b)"
| "js_mul a (Num y) = (if y = 0 then NaN else if 0 < y then a else js_neg a)"
| "js_mul PosInf b = b"
| "js_mul NegInf b = js_neg b"

fun js_div :: "jsnum \<Rightarrow> jsnum \<Rightarrow> jsnum" where
  "js_div NaN b = NaN"
| "js_div a NaN = NaN"
| "js_div (Num x) (Num y) =
     (if y = 0 then (if x = 0 then NaN else if 0 < x then PosInf else NegInf)
      else round64 (x / y))"
| "js_div (Num x) b = Num 0"
| "js_div a (Num y) = (if 0 \<le> y then a else js_neg a)"
| "js_div a b = NaN"

subsection \<open>JavaScript values and their conversion to a number\<close>

text \<open>
  The values \<^verbatim>\<open>meta.format.duration\<close> can hold: fluent-ffmpeg hands over a field of ffprobe's
  output as a number when it reads as one and as a string otherwise, and ffprobe prints
  \<^verbatim>\<open>N/A\<close> for a duration it cannot determine. A character stands for the code unit of its
  number.
\<close>

datatype jsvalue = JUndefined | JNumber jsnum | JString string

text \<open>
  \<^verbatim>\<open>Number(s)\<close> for a string, after the grammar \<^verbatim>\<open>StringNumericLiteral\<close> of ECMAScript: white
  space is trimmed, the empty string is 0, then comes a binary, octal or hexadecimal
  integer without a sign, or a decimal literal with an optional sign (\<^verbatim>\<open>Infinity\<close>, or
  digits with an optional fraction and an optional exponent). Everything else is
  \<^verbatim>\<open>NaN\<close>.
\<close>

definition str_white_space :: "char \<Rightarrow> bool" where
  "str_white_space c \<longleftrightarrow> (of_char c :: nat) \<in> {9, 10, 11, 12, 13, 32, 160}"

definition trim :: "string \<Rightarrow> string" where
  "trim s = rev (dropWhile str_white_space (rev (dropWhile str_white_space s)))"

definition decimal_digit :: "char \<Rightarrow> bool" where
  "decimal_digit c \<longleftrightarrow> CHR ''0'' \<le> c \<and> c \<le> CHR ''9''"

text \<open>The value of a digit in a radix up to 36; 36 for a character that is no digit.\<close>

definition digit_value :: "char \<Rightarrow> int" where
  "digit_value c =
     (if decimal_digit c then of_char c - 48
      else if CHR ''a'' \<le> c \<and> c \<le> CHR ''z'' then of_char c - 87
      else if CHR ''A'' \<le> c \<and> c \<le> CHR ''Z'' then of_char c - 55
      else 36)"

definition digits_in :: "int \<Rightarrow> string \<Rightarrow> bool" where
  "digits_in radix s \<longleftrightarrow> s \<noteq> [] \<and> list_all (\<lambda>c. digit_value c < radix) s"

definition number_in :: "int \<Rightarrow> string \<Rightarrow> int" where
  "number_in radix s = foldl (\<lambda>n c. n * radix + digit_value c) 0 s"

definition signed_integer :: "string \<Rightarrow> int option" where
  "signed_integer s =
     (case s of
        [] \<Rightarrow> None
      | c # t \<Rightarrow>
          if c = CHR ''+'' then (if digits_in 10 t then Some (number_in 10 t) else None)
          else if c = CHR ''-'' then (if digits_in 10 t then Some (- number_in 10 t) else None)
          else if digits_in 10 s then Some (number_in 10 s) else None)"

definition exponent_part :: "string \<Rightarrow> int option" where
  "exponent_part s =
     (case s of
        [] \<Rightarrow> Some 0
      | c # t \<Rightarrow> if c = CHR ''e'' \<or> c = CHR ''E'' then signed_integer t else None)"

definition str_unsigned_decimal :: "string \<Rightarrow> jsnum" where
  "str_unsigned_decimal s =
     (if s = ''Infinity'' then PosInf
      else
        (let ip = takeWhile decimal_digit s;
             r = dropWhile decimal_digit s;
             fp = (case r of [] \<Rightarrow> []
                   | c # t \<Rightarrow> if c = CHR ''.'' then takeWhile decimal_digit t else []);
             ep = (case r of [] \<Rightarrow> []
                   | c # t \<Rightarrow> if c = CHR ''.'' then dropWhile decimal_digit t else r)
         in if ip = [] \<and> fp = [] then NaN
            else
              (case exponent_part ep of
                 None \<Rightarrow> NaN
               | Some e \<Rightarrow>
                   round64 (of_int (number_in 10 (ip @ fp)) * 10 powi (e - int (length fp))))))"

definition str_decimal :: "string \<Rightarrow> jsnum" where
  "str_decimal s =
     (case s of
        [] \<Rightarrow> NaN
      | c # t \<Rightarrow>
          if c = CHR ''+'' then str_unsigned_decimal t
          else if c = CHR ''-'' then js_neg (str_unsigned_decimal t)
          else str_unsigned_decimal s)"

definition radix_of :: "char \<Rightarrow> int option" where
  "radix_of c =
     (if c = CHR ''x'' \<or> c = CHR ''X'' then Some 16
      else if c = CHR ''o'' \<or> c = CHR ''O'' then Some 8
      else if c = CHR ''b'' \<or> c = CHR ''B'' then Some 2
      else None)"

definition str_numeric :: "string \<Rightarrow> jsnum" where
  "str_numeric s =
     (case s of
        c # d # t \<Rightarrow>
          (case (if c = CHR ''0'' then radix_of d else None) of
             Some radix \<Rightarrow> if digits_in radix t then round64 (of_int (number_in radix t)) else NaN
           | None \<Rightarrow> str_decimal s)
      | _ \<Rightarrow> str_decimal s)"

definition string_to_number :: "string \<Rightarrow> jsnum" where
  "string_to_number s = (if trim s = [] then Num 0 else str_numeric (trim s))"

text \<open>\<^verbatim>\<open>ToNumber\<close>, which \<^verbatim>\<open>Math.max\<close> applies to its arguments, and \<^verbatim>\<open>ToBoolean\<close>, which \<^verbatim>\<open>||\<close> applies.\<close>

definition to_number :: "jsvalue \<Rightarrow> jsnum" where
  "to_number v = (case v of JUndefined \<Rightarrow> NaN | JNumber a \<Rightarrow> a | JString s \<Rightarrow> string_to_number s)"

definition truthy :: "jsvalue \<Rightarrow> bool" where
  "truthy v =
     (case v of JUndefined \<Rightarrow> False | JNumber a \<Rightarrow> a \<noteq> NaN \<and> a \<noteq> Num 0 | JString s \<Rightarrow> s \<noteq> [])"

subsection \<open>Configuration and probe data\<close>

record config =
  TARGET_MB :: real
  AUDIO_KBPS :: int
  MAX_WIDTH :: int
  CONCURRENCY :: int

text \<open>The defaults of all three revisions: 9.8 MB, 96 kbps audio, 1280 pixels, one slot.\<close>

definition default_config :: config where
  "default_config = \<lparr>TARGET_MB = 98 / 10, AUDIO_KBPS = 96, MAX_WIDTH = 1280, CONCURRENCY = 1\<rparr>"

text \<open>
  The part of ffprobe's answer the handler reads: \<^verbatim>\<open>meta.format\<close> may be absent, and
  \<^verbatim>\<open>meta.format.duration\<close> is absent (\<open>JUndefined\<close>), a number or a string.
\<close>

record format_info =
  duration_field :: jsvalue

record probe_data =
  format :: "format_info option"

text \<open>
  The exceptions the handlers meet: a rejected probe, a rejected encode, a rejected
  \<^verbatim>\<open>fsp.stat\<close>, and the TypeError of reading a property of \<^verbatim>\<open>undefined\<close>.
\<close>

datatype error = ProbeError | EncodeError | StatError | TypeError

subsection \<open>The bitrate plan\<close>

text \<open>
  \<^verbatim>\<open>x || 1\<close>: \<^verbatim>\<open>undefined\<close>, zero, \<^verbatim>\<open>NaN\<close> and the empty string are falsy and replaced;
  every other value, a non-empty string included, is kept as it is.
\<close>

definition or_one :: "jsvalue \<Rightarrow> jsvalue" where
  "or_one v = (if truthy v then v else JNumber (Num 1))"

text \<open>
  Simple and queued revision: \<^verbatim>\<open>Math.max(1, meta.format?.duration || 1)\<close>. The optional
  chaining yields \<^verbatim>\<open>undefined\<close> when \<^verbatim>\<open>meta.format\<close> is absent. \<^verbatim>\<open>Math.max\<close> converts its
  arguments to numbers.
\<close>

definition duration :: "probe_data \<Rightarrow> jsnum" where
  "duration meta =
     js_max (Num 1)
       (to_number (or_one (case format meta of None \<Rightarrow> JUndefined | Some f \<Rightarrow> duration_field f)))"

text \<open>
  Retry revision: \<^verbatim>\<open>Math.max(1, meta.format.duration || 1)\<close>. Reading a property of an
  absent \<^verbatim>\<open>meta.format\<close> throws a TypeError, which the handler's \<^verbatim>\<open>catch\<close> receives.
\<close>

definition duration_retry :: "probe_data \<Rightarrow> error + jsnum" where
  "duration_retry meta =
     (case format meta of
        None \<Rightarrow> Inl TypeError
      | Some f \<Rightarrow> Inr (js_max (Num 1) (to_number (or_one (duration_field f)))))"

text \<open>
  \<^verbatim>\<open>Math.floor(TARGET_MB * 1024 * 1024)\<close>. A product of a double with 1024 is not
  rounded, so the floor of the real product is the budget of the program. The budget and
  the configured audio bitrate enter the plan as the numbers they are.
\<close>

definition targetBytes :: "config \<Rightarrow> int" where
  "targetBytes cfg = \<lfloor>TARGET_MB cfg * 1024 * 1024\<rfloor>"

text \<open>
  \<^verbatim>\<open>Math.max(200, Math.floor((targetBytes * 8) / duration / 1000))\<close> in the simple and the
  retry revision; the queued revision has 180 for 200.
\<close>

definition totalKbps_simple :: "jsnum \<Rightarrow> int \<Rightarrow> jsnum" where
  "totalKbps_simple d tb =
     js_max (Num 200) (js_floor (js_div (js_div (js_mul (Num (of_int tb)) (Num 8)) d) (Num 1000)))"

definition totalKbps_queued :: "jsnum \<Rightarrow> int \<Rightarrow> jsnum" where
  "totalKbps_queued d tb =
     js_max (Num 180) (js_floor (js_div (js_div (js_mul (Num (of_int tb)) (Num 8)) d) (Num 1000)))"

text \<open>
  \<^verbatim>\<open>Math.max(64, totalKbps - AUDIO_KBPS)\<close> in the simple and the retry revision; the queued
  revision has 56 for 64.
\<close>

definition initialVideoKbps_simple :: "jsnum \<Rightarrow> int \<Rightarrow> int \<Rightarrow> jsnum" where
  "initialVideoKbps_simple d tb audio =
     js_max (Num 64) (js_sub (totalKbps_simple d tb) (Num (of_int audio)))"

definition initialVideoKbps_queued :: "jsnum \<Rightarrow> int \<Rightarrow> int \<Rightarrow> jsnum" where
  "initialVideoKbps_queued d tb audio =
     js_max (Num 56) (js_sub (totalKbps_queued d tb) (Num (of_int audio)))"

text \<open>
  The planner as the specification words it, with the two floors as parameters and its
  operations read as those of the program's numbers. It is compared with the handlers'
  inlined expressions below. \<open>exact_totalKbps\<close> is the same formula read over the real
  numbers, without rounding.
\<close>

definition spec_totalKbps :: "int \<Rightarrow> jsnum \<Rightarrow> int \<Rightarrow> jsnum" where
  "spec_totalKbps floorTotalKbps durationSeconds tb =
     js_max (Num (of_int floorTotalKbps))
       (js_floor (js_div (js_div (js_mul (Num (of_int tb)) (Num 8)) durationSeconds) (Num 1000)))"

definition spec_plan :: "int \<Rightarrow> int \<Rightarrow> jsnum \<Rightarrow> int \<Rightarrow> int \<Rightarrow> jsnum" where
  "spec_plan floorTotalKbps floorVideoKbps durationSeconds tb audioKbps =
     js_max (Num (of_int floorVideoKbps))
       (js_sub (spec_totalKbps floorTotalKbps durationSeconds tb) (Num (of_int audioKbps)))"

definition exact_totalKbps :: "int \<Rightarrow> real \<Rightarrow> int \<Rightarrow> int" where
  "exact_totalKbps floorTotalKbps durationSeconds tb =
     max floorTotalKbps \<lfloor>real_of_int tb * 8 / durationSeconds / 1000\<rfloor>"

subsection \<open>Temporary files and the outside world\<close>

text \<open>
  Every file of a request lives in \<^verbatim>\<open>TMP_DIR\<close>. The upload is stored by multer under a
  name of its own. The encoder outputs are named
  \<^verbatim>\<open>`${Date.now()}_${outName}`\<close> (the first output),
  \<^verbatim>\<open>`${Date.now()}_${i}_${outName}`\<close> (pass \<open>i > 0\<close>) and
  \<^verbatim>\<open>`${Date.now()}_retry_${outName}`\<close> (the retry revision). A path keeps these parts
  apart instead of joining them into one string.
\<close>

datatype tag = First | Pass nat | Retry

datatype path = Upload string | TmpOut int tag string

text \<open>
  What the handler cannot decide: the clock (\<open>now w k\<close> is \<^verbatim>\<open>Date.now()\<close> when the name of
  attempt \<open>k\<close> is made), ffprobe (\<open>None\<close>: the promise rejects), ffmpeg (\<open>False\<close>: the
  \<^verbatim>\<open>error\<close> event), \<^verbatim>\<open>fsp.stat\<close> (\<open>None\<close>: it rejects) and the read stream piped into
  the response (\<open>False\<close>: its \<^verbatim>\<open>error\<close> event).
\<close>

record world =
  now :: "nat \<Rightarrow> int"
  probe :: "path \<Rightarrow> probe_data option"
  encode :: "path \<Rightarrow> path \<Rightarrow> jsnum \<Rightarrow> int \<Rightarrow> int \<Rightarrow> bool"
  stat_size :: "path \<Rightarrow> int option"
  stream_ok :: "path \<Rightarrow> bool"

text \<open>One invocation of the encoder; \<open>resultBytes\<close> is absent when no size was measured.\<close>

record attempt =
  index :: nat
  outputLocation :: path
  videoKbps :: jsnum
  resultBytes :: "int option"

subsection \<open>The multi-pass loop of the simple and the queued revision\<close>

text \<open>
  The variables the loop assigns, \<^verbatim>\<open>lastOut\<close> and \<^verbatim>\<open>videoKbpsNow\<close> (\<^verbatim>\<open>vkbps\<close> in the queued
  revision), and the encoder invocations made so far (\<open>attempts\<close>, kept for the proofs).
\<close>

record loop_state =
  lastOut :: path
  vkbps :: jsnum
  attempts :: "attempt list"

text \<open>
  \<^verbatim>\<open>
  for (let i = 0; i < passes.length; i++) {
    const out = i === 0 ? firstOut : path.join(TMP_DIR, `${Date.now()}_${i}_${outName}`);
    if (i > 0) videoKbpsNow = Math.max(48, Math.floor(initialVideoKbps * passes[i]));
    await encode(inputPath, out, videoKbpsNow, AUDIO_KBPS, MAX_WIDTH);
    const sizeNow = (await fsp.stat(out)).size;
    lastOut = out;
    if (sizeNow <= targetBytes) break;
  }
  \<close>
  The loop at index \<open>i\<close>, with the factors from \<open>passes[i]\<close> on as a list. A rejected
  \<^verbatim>\<open>encode\<close> or \<^verbatim>\<open>stat\<close> leaves the loop with the error (first component).
\<close>

fun passes_loop ::
  "world \<Rightarrow> config \<Rightarrow> path \<Rightarrow> path \<Rightarrow> string \<Rightarrow> jsnum \<Rightarrow> int \<Rightarrow> nat \<Rightarrow> jsnum list \<Rightarrow> loop_state
     \<Rightarrow> error option \<times> loop_state" where
  "passes_loop w cfg inputPath firstOut oname initialVideoKbps tb i [] st = (None, st)"
| "passes_loop w cfg inputPath firstOut oname initialVideoKbps tb i (f # fs) st =
     (let out = (if i = 0 then firstOut else TmpOut (now w i) (Pass i) oname);
          vk = (if i > 0 then js_max (Num 48) (js_floor (js_mul initialVideoKbps f)) else vkbps st)
      in if \<not> encode w inputPath out vk (AUDIO_KBPS cfg) (MAX_WIDTH cfg)
         then (Some EncodeError,
               st\<lparr>vkbps := vk,
                  attempts := attempts st @
                    [\<lparr>index = i, outputLocation = out, videoKbps = vk, resultBytes = None\<rparr>]\<rparr>)
         else
           (case stat_size w out of
              None \<Rightarrow>
                (Some StatError,
                 st\<lparr>vkbps := vk,
                    attempts := attempts st @
                      [\<lparr>index = i, outputLocation = out, videoKbps = vk, resultBytes = None\<rparr>]\<rparr>)
            | Some sizeNow \<Rightarrow>
                (let st' = \<lparr>lastOut = out, vkbps = vk,
                            attempts = attempts st @
                              [\<lparr>index = i, outputLocation = out, videoKbps = vk,
                                resultBytes = Some sizeNow\<rparr>]\<rparr>
                 in if sizeNow \<le> tb then (None, st')
                    else passes_loop w cfg inputPath firstOut oname initialVideoKbps tb (Suc i) fs st')))"

text \<open>
  \<^verbatim>\<open>const passes = [1.00, 0.85, 0.72]\<close> and \<^verbatim>\<open>const factors = [1.00, 0.82, 0.68, 0.56]\<close>: each
  literal denotes the double nearest to it.
\<close>

definition passes :: "jsnum list" where
  "passes = [round64 1, round64 (85 / 100), round64 (72 / 100)]"

definition factors :: "jsnum list" where
  "factors = [round64 1, round64 (82 / 100), round64 (68 / 100), round64 (56 / 100)]"

subsection \<open>Requests, responses and deferred deletion\<close>

record upload_file =
  file_path :: string
  originalname :: "string option"

text \<open>\<open>file_field\<close> is \<^verbatim>\<open>req.file\<close>: absent when the form has no field \<^verbatim>\<open>video\<close>.\<close>

record request =
  file_field :: "upload_file option"

datatype body = Text string | FileBytes path

record response =
  status :: nat
  contentType :: "string option"
  contentDisposition :: "string option"
  content :: body

text \<open>
  What a request leaves behind: the response (\<open>None\<close> when the handler throws outside its
  \<^verbatim>\<open>try\<close> and answers nothing), the paths handed to \<^verbatim>\<open>cleanupLater\<close>, the paths unlinked at
  once, and the encoder invocations.
\<close>

record outcome =
  reply :: "response option"
  cleanup :: "path list"
  unlinked :: "path list"
  invoked :: "attempt list"

text \<open>
  \<^verbatim>\<open>cleanupLater(paths)\<close> unlinks, after a delay, every entry that is not \<^verbatim>\<open>null\<close> and
  still exists: the entries that are paths are what is scheduled for deletion.
\<close>

definition cleanupLater :: "path option list \<Rightarrow> path list" where
  "cleanupLater paths = [p. Some p \<leftarrow> paths]"

definition failure_message :: string where
  "failure_message = ''Compression failed. Try a shorter clip or lower source bitrate.''"

definition failure_message_retry :: string where
  "failure_message_retry = ''Compression failed. Try a shorter clip or smaller source.''"

definition no_file_response :: response where
  "no_file_response =
     \<lparr>status = 400, contentType = None, contentDisposition = None, content = Text ''No file uploaded''\<rparr>"

text \<open>\<^verbatim>\<open>res.status(500).send(msg)\<close>, with the headers the handler had set until then.\<close>

definition failed :: "string option \<Rightarrow> string option \<Rightarrow> string \<Rightarrow> response" where
  "failed ct cd msg = \<lparr>status = 500, contentType = ct, contentDisposition = cd, content = Text msg\<rparr>"

text \<open>
  \<^verbatim>\<open>streamDownload(res, filePath, downloadName)\<close> sets the two headers and pipes the file
  into the response, whose status stays at the default 200.
\<close>

definition streamDownload :: "path \<Rightarrow> string \<Rightarrow> response" where
  "streamDownload filePath downloadName =
     \<lparr>status = 200, contentType = Some ''video/mp4'',
      contentDisposition = Some (''attachment; filename='' @ [CHR 0x22] @ downloadName @ [CHR 0x22]),
      content = FileBytes filePath\<rparr>"

subsection \<open>The simple revision of the handler\<close>

text \<open>
  First document of \<^verbatim>\<open>src/server.js\<close>. The \<^verbatim>\<open>catch\<close> block answers 500 and schedules
  \<^verbatim>\<open>[inputPath, firstOut]\<close>; after a delivery \<^verbatim>\<open>[inputPath, firstOut !== lastOut ? firstOut : null, lastOut]\<close>
  is scheduled.
\<close>

definition upload_simple :: "config \<Rightarrow> world \<Rightarrow> request \<Rightarrow> outcome" where
  "upload_simple cfg w req =
     (case file_field req of
        None \<Rightarrow> \<lparr>reply = Some no_file_response, cleanup = [], unlinked = [], invoked = []\<rparr>
      | Some f \<Rightarrow>
          (let inputPath = Upload (file_path f);
               oname = outName (originalname f);
               firstOut = TmpOut (now w 0) First oname
           in case probe w inputPath of
                None \<Rightarrow>
                  \<lparr>reply = Some (failed None None failure_message),
                   cleanup = cleanupLater [Some inputPath, Some firstOut],
                   unlinked = [], invoked = []\<rparr>
              | Some meta \<Rightarrow>
                  (let d = duration meta;
                       tb = targetBytes cfg;
                       initialVideoKbps = initialVideoKbps_simple d tb (AUDIO_KBPS cfg);
                       (err, st) =
                         passes_loop w cfg inputPath firstOut oname initialVideoKbps tb 0 passes
                           \<lparr>lastOut = firstOut, vkbps = initialVideoKbps, attempts = []\<rparr>
                   in case err of
                        Some e \<Rightarrow>
                          \<lparr>reply = Some (failed None None failure_message),
                           cleanup = cleanupLater [Some inputPath, Some firstOut],
                           unlinked = [], invoked = attempts st\<rparr>
                      | None \<Rightarrow>
                          if stream_ok w (lastOut st)
                          then
                            \<lparr>reply = Some (streamDownload (lastOut st) oname),
                             cleanup =
                               cleanupLater
                                 [Some inputPath,
                                  if firstOut \<noteq> lastOut st then Some firstOut else None,
                                  Some (lastOut st)],
                             unlinked = [], invoked = attempts st\<rparr>
                          else
                            \<lparr>reply =
                               Some (failed (contentType (streamDownload (lastOut st) oname))
                                       (contentDisposition (streamDownload (lastOut st) oname))
                                       failure_message),
                             cleanup = cleanupLater [Some inputPath, Some firstOut],
                             unlinked = [], invoked = attempts st\<rparr>)))"

subsection \<open>The queued revision of the handler\<close>

text \<open>
  Second document of \<^verbatim>\<open>src/server.js\<close>. The function handed to \<^verbatim>\<open>enqueue\<close> probes and encodes;
  it returns \<^verbatim>\<open>{ filePath: lastOut, outName, firstOut }\<close> or throws. The encoder invocations
  it made are returned beside its result.
\<close>

record job_result =
  filePath :: path
  job_outName :: string
  job_firstOut :: path

definition job_queued :: "config \<Rightarrow> world \<Rightarrow> upload_file \<Rightarrow> attempt list \<times> (error + job_result)" where
  "job_queued cfg w f =
     (let inputPath = Upload (file_path f);
          oname = outName (originalname f);
          firstOut = TmpOut (now w 0) First oname
      in case probe w inputPath of
           None \<Rightarrow> ([], Inl ProbeError)
         | Some meta \<Rightarrow>
             (let d = duration meta;
                  tb = targetBytes cfg;
                  initialVideoKbps = initialVideoKbps_queued d tb (AUDIO_KBPS cfg);
                  (err, st) =
                    passes_loop w cfg inputPath firstOut oname initialVideoKbps tb 0 factors
                      \<lparr>lastOut = firstOut, vkbps = initialVideoKbps, attempts = []\<rparr>
              in case err of
                   Some e \<Rightarrow> (attempts st, Inl e)
                 | None \<Rightarrow>
                     (attempts st,
                      Inr \<lparr>filePath = lastOut st, job_outName = oname, job_firstOut = firstOut\<rparr>)))"

text \<open>
  The handler awaits the queued job, reads \<^verbatim>\<open>filePath\<close> and \<^verbatim>\<open>outName\<close> of its result,
  streams and schedules \<^verbatim>\<open>[inputPath, filePath]\<close>; its \<^verbatim>\<open>catch\<close> block schedules
  \<^verbatim>\<open>[inputPath]\<close> and answers 500.
\<close>

definition upload_queued :: "config \<Rightarrow> world \<Rightarrow> request \<Rightarrow> outcome" where
  "upload_queued cfg w req =
     (case file_field req of
        None \<Rightarrow> \<lparr>reply = Some no_file_response, cleanup = [], unlinked = [], invoked = []\<rparr>
      | Some f \<Rightarrow>
          (let inputPath = Upload (file_path f);
               (made, r) = job_queued cfg w f
           in case r of
                Inl e \<Rightarrow>
                  \<lparr>reply = Some (failed None None failure_message),
                   cleanup = cleanupLater [Some inputPath],
                   unlinked = [], invoked = made\<rparr>
              | Inr jr \<Rightarrow>
                  if stream_ok w (filePath jr)
                  then
                    \<lparr>reply = Some (streamDownload (filePath jr) (job_outName jr)),
                     cleanup = cleanupLater [Some inputPath, Some (filePath jr)],
                     unlinked = [], invoked = made\<rparr>
                  else
                    \<lparr>reply =
                       Some (failed (contentType (streamDownload (filePath jr) (job_outName jr)))
                               (contentDisposition (streamDownload (filePath jr) (job_outName jr)))
                               failure_message),
                     cleanup = cleanupLater [Some inputPath],
                     unlinked = [], invoked = made\<rparr>))"

subsection \<open>The retry revision of the handler\<close>

text \<open>
  \<^verbatim>\<open>src/unnamed/part_000\<close>. \<^verbatim>\<open>req.file.path\<close> is read without a guard and outside the
  \<^verbatim>\<open>try\<close>: without a file the handler throws and answers nothing. An oversized first
  output is unlinked as soon as the retry has been encoded. The read stream has no
  \<^verbatim>\<open>error\<close> listener, so a failing stream ends the handler without an answer as well.
\<close>

definition retry_failed :: "path \<Rightarrow> path \<Rightarrow> path list \<Rightarrow> attempt list \<Rightarrow> outcome" where
  "retry_failed inputPath outputPath gone made =
     \<lparr>reply = Some (failed None None failure_message_retry),
      cleanup = cleanupLater [Some inputPath, Some outputPath],
      unlinked = gone, invoked = made\<rparr>"

definition retry_delivered :: "world \<Rightarrow> path \<Rightarrow> path \<Rightarrow> string \<Rightarrow> path list \<Rightarrow> attempt list \<Rightarrow> outcome" where
  "retry_delivered w inputPath final oname gone made =
     (if stream_ok w final
      then \<lparr>reply = Some (streamDownload final oname),
            cleanup = cleanupLater [Some inputPath, Some final],
            unlinked = gone, invoked = made\<rparr>
      else \<lparr>reply = None, cleanup = [], unlinked = gone, invoked = made\<rparr>)"

definition upload_retry :: "config \<Rightarrow> world \<Rightarrow> request \<Rightarrow> outcome" where
  "upload_retry cfg w req =
     (case file_field req of
        None \<Rightarrow> \<lparr>reply = None, cleanup = [], unlinked = [], invoked = []\<rparr>
      | Some f \<Rightarrow>
          (let inputPath = Upload (file_path f);
               oname = outName (originalname f);
               outputPath = TmpOut (now w 0) First oname
           in case probe w inputPath of
                None \<Rightarrow> retry_failed inputPath outputPath [] []
              | Some meta \<Rightarrow>
                  (case duration_retry meta of
                     Inl e \<Rightarrow> retry_failed inputPath outputPath [] []
                   | Inr d \<Rightarrow>
                       (let tb = targetBytes cfg;
                            videoKbps0 = initialVideoKbps_simple d tb (AUDIO_KBPS cfg);
                            a0 = \<lparr>index = 0, outputLocation = outputPath, videoKbps = videoKbps0,
                                   resultBytes = None\<rparr>
                        in if \<not> encode w inputPath outputPath videoKbps0 (AUDIO_KBPS cfg) (MAX_WIDTH cfg)
                           then retry_failed inputPath outputPath [] [a0]
                           else
                             (case stat_size w outputPath of
                                None \<Rightarrow> retry_failed inputPath outputPath [] [a0]
                              | Some size0 \<Rightarrow>
                                  if size0 > tb
                                  then
                                    (let retryOut = TmpOut (now w 1) Retry oname;
                                         videoKbps1 =
                                           js_max (Num 48)
                                             (js_floor (js_mul videoKbps0 (round64 (85 / 100))));
                                         a1 = \<lparr>index = 1, outputLocation = retryOut,
                                                videoKbps = videoKbps1, resultBytes = None\<rparr>
                                     in if \<not> encode w inputPath retryOut videoKbps1 (AUDIO_KBPS cfg) (MAX_WIDTH cfg)
                                        then retry_failed inputPath outputPath []
                                               [a0\<lparr>resultBytes := Some size0\<rparr>, a1]
                                        else
                                          (case stat_size w retryOut of
                                             None \<Rightarrow>
                                               retry_failed inputPath outputPath [outputPath]
                                                 [a0\<lparr>resultBytes := Some size0\<rparr>, a1]
                                           | Some size1 \<Rightarrow>
                                               retry_delivered w inputPath retryOut oname [outputPath]
                                                 [a0\<lparr>resultBytes := Some size0\<rparr>,
                                                  a1\<lparr>resultBytes := Some size1\<rparr>]))
                                  else
                                    retry_delivered w inputPath outputPath oname []
                                      [a0\<lparr>resultBytes := Some size0\<rparr>])))))"

subsection \<open>The admission queue of the queued revision\<close>

text \<open>
  \<^verbatim>\<open>
  const queue = [];
  let running = 0;
  function enqueue(jobFn){
    return new Promise((resolve, reject)=>{ queue.push({ jobFn, resolve, reject }); pump(); });
  }
  function pump(){
    if (running >= CONCURRENCY || queue.length === 0) return;
    const { jobFn, resolve, reject } = queue.shift();
    running++;
    Promise.resolve().then(jobFn)
      .then((v)=>{ running--; pump(); resolve(v); })
      .catch((e)=>{ running--; pump(); reject(e); });
  }
  \<close>
  Node runs these callbacks one at a time, each to its end. The state holds the two
  variables of the code, \<open>queue\<close> and \<open>running\<close>; beside them it records which jobs are
  between \<^verbatim>\<open>running++\<close> and their \<^verbatim>\<open>running--\<close> (\<open>inflight\<close>), which promises of \<^verbatim>\<open>enqueue\<close>
  are settled while their handler has not resumed yet (\<open>settled\<close>), and the events so far
  (\<open>trace\<close>, oldest first). A job is a number that stands for one request's closure.
\<close>

type_synonym job = nat

datatype event =
  Arrived job | Started job | Released job | StreamBegun job | Answered500 job

record qstate =
  queue :: "job list"
  running :: int
  inflight :: "job list"
  settled :: "(job \<times> bool) list"
  trace :: "event list"

definition initial :: qstate where
  "initial = \<lparr>queue = [], running = 0, inflight = [], settled = [], trace = []\<rparr>"

definition pump :: "int \<Rightarrow> qstate \<Rightarrow> qstate" where
  "pump C s =
     (if running s \<ge> C \<or> length (queue s) = 0 then s
      else s\<lparr>queue := tl (queue s),
             running := running s + 1,
             inflight := inflight s @ [hd (queue s)],
             trace := trace s @ [Started (hd (queue s))]\<rparr>)"

definition enqueue :: "int \<Rightarrow> job \<Rightarrow> qstate \<Rightarrow> qstate" where
  "enqueue C j s = pump C (s\<lparr>queue := queue s @ [j], trace := trace s @ [Arrived j]\<rparr>)"

text \<open>
  The \<^verbatim>\<open>then\<close> callback (\<open>ok\<close>) or the \<^verbatim>\<open>catch\<close> callback of a job whose function has returned
  or thrown: \<^verbatim>\<open>running--; pump(); resolve(v)\<close>, respectively \<^verbatim>\<open>reject(e)\<close>.
\<close>

definition settle :: "int \<Rightarrow> job \<Rightarrow> bool \<Rightarrow> qstate \<Rightarrow> qstate" where
  "settle C j ok s =
     (let s1 = s\<lparr>running := running s - 1, inflight := remove1 j (inflight s),
                 trace := trace s @ [Released j]\<rparr>;
          s2 = pump C s1
      in s2\<lparr>settled := settled s2 @ [(j, ok)]\<rparr>)"

text \<open>
  The handler resumes after its \<^verbatim>\<open>await enqueue(...)\<close>: with a result it calls
  \<^verbatim>\<open>streamDownload\<close>, with an exception it answers 500.
\<close>

definition resume :: "job \<Rightarrow> bool \<Rightarrow> qstate \<Rightarrow> qstate" where
  "resume j ok s =
     s\<lparr>settled := remove1 (j, ok) (settled s),
       trace := trace s @ [if ok then StreamBegun j else Answered500 j]\<rparr>"

text \<open>
  What can happen next: a request arrives at \<^verbatim>\<open>enqueue\<close>, the function of an inflight job
  ends, or a handler whose promise is settled resumes. A step that is not possible in the
  state gives \<open>None\<close>.
\<close>

datatype action = Enqueue job | Settle job bool | Resume job bool

definition step :: "int \<Rightarrow> action \<Rightarrow> qstate \<Rightarrow> qstate option" where
  "step C a s =
     (case a of
        Enqueue j \<Rightarrow> Some (enqueue C j s)
      | Settle j ok \<Rightarrow> if j \<in> set (inflight s) then Some (settle C j ok s) else None
      | Resume j ok \<Rightarrow> if (j, ok) \<in> set (settled s) then Some (resume j ok s) else None)"

fun run :: "int \<Rightarrow> action list \<Rightarrow> qstate \<Rightarrow> qstate option" where
  "run C [] s = Some s"
| "run C (a # as) s = (case step C a s of None \<Rightarrow> None | Some s' \<Rightarrow> run C as s')"

text \<open>The jobs of the events of one kind, in the order of the trace.\<close>

definition arrivals :: "event list \<Rightarrow> job list" where
  "arrivals es = [j. Arrived j \<leftarrow> es]"

definition starts :: "event list \<Rightarrow> job list" where
  "starts es = [j. Started j \<leftarrow> es]"

subsection \<open>Notions used in the statements\<close>

text \<open>An attempt whose measured size is within, respectively above, the budget.\<close>

definition fits :: "int \<Rightarrow> attempt \<Rightarrow> bool" where
  "fits tb a = (case resultBytes a of None \<Rightarrow> False | Some sz \<Rightarrow> sz \<le> tb)"

definition oversized :: "int \<Rightarrow> attempt \<Rightarrow> bool" where
  "oversized tb a = (case resultBytes a of None \<Rightarrow> False | Some sz \<Rightarrow> tb < sz)"

text \<open>
  The bitrate and the output of pass \<open>i\<close>, as the loop body computes them from the index,
  the factor \<open>f = passes[i]\<close> and the bitrate \<open>v\<close> the loop was entered with.
\<close>

definition pass_kbps :: "jsnum \<Rightarrow> jsnum \<Rightarrow> nat \<Rightarrow> jsnum \<Rightarrow> jsnum" where
  "pass_kbps initialVideoKbps v i f =
     (if i > 0 then js_max (Num 48) (js_floor (js_mul initialVideoKbps f)) else v)"

text \<open>
  One bitrate is at most another. A request whose plan is no number hands \<^verbatim>\<open>NaN\<close> to the
  encoder at every attempt; \<^verbatim>\<open>NaN\<close> is in no order with anything, and two such bitrates are
  counted as equal.
\<close>

definition at_most :: "jsnum \<Rightarrow> jsnum \<Rightarrow> bool" where
  "at_most a b \<longleftrightarrow> js_le a b \<or> (a = NaN \<and> b = NaN)"

definition pass_out :: "world \<Rightarrow> path \<Rightarrow> string \<Rightarrow> nat \<Rightarrow> path" where
  "pass_out w firstOut oname i = (if i = 0 then firstOut else TmpOut (now w i) (Pass i) oname)"

subsection \<open>A mock encoder for the scenarios of the specification\<close>

definition MB :: int where
  "MB = 1024 * 1024"

text \<open>Which attempt a temporary output belongs to.\<close>

definition attempt_no :: "path \<Rightarrow> nat option" where
  "attempt_no p =
     (case p of
        Upload n \<Rightarrow> None
      | TmpOut t First n \<Rightarrow> Some 0
      | TmpOut t (Pass i) n \<Rightarrow> Some i
      | TmpOut t Retry n \<Rightarrow> Some 1)"

text \<open>
  A world for tests: the probe reports the duration \<open>d\<close>, attempt \<open>k\<close> produces a file of
  \<open>sizes ! k\<close> bytes, the encoder fails where that entry is \<open>None\<close> or missing, and every
  stream succeeds. In \<open>mock_world\<close> the duration is a number of seconds.
\<close>

definition mock_size :: "int option list \<Rightarrow> path \<Rightarrow> int option" where
  "mock_size sizes p =
     (case attempt_no p of
        None \<Rightarrow> None
      | Some k \<Rightarrow> if k < length sizes then sizes ! k else None)"

definition mock_probe :: "jsvalue \<Rightarrow> int option list \<Rightarrow> world" where
  "mock_probe d sizes =
     \<lparr>now = (\<lambda>k. 1700000000000 + int k),
      probe = (\<lambda>p. Some \<lparr>format = Some \<lparr>duration_field = d\<rparr>\<rparr>),
      encode = (\<lambda>input out vk audio width. mock_size sizes out \<noteq> None),
      stat_size = mock_size sizes,
      stream_ok = (\<lambda>p. True)\<rparr>"

definition mock_world :: "real \<Rightarrow> int option list \<Rightarrow> world" where
  "mock_world secs sizes = mock_probe (JNumber (Num secs)) sizes"

definition sample_file :: upload_file where
  "sample_file = \<lparr>file_path = ''tmp/3f9a'', originalname = Some ''clip.mov''\<rparr>"

definition sample_request :: request where
  "sample_request = \<lparr>file_field = Some sample_file\<rparr>"

text \<open>
  What holds in every state of the queue that can be reached: \<open>running\<close> counts the
  inflight jobs and stays within the capacity, the jobs started so far followed by the
  waiting ones are the arrivals in their order, a settled promise belongs to a released
  job, and every answer in the trace comes after the release of its job.
\<close>

definition queue_inv :: "int \<Rightarrow> qstate \<Rightarrow> bool" where
  "queue_inv C s \<longleftrightarrow>
     running s = int (length (inflight s)) \<and>
     running s \<le> max 0 C \<and>
     arrivals (trace s) = starts (trace s) @ queue s \<and>
     (\<forall>j ok. (j, ok) \<in> set (settled s) \<longrightarrow> Released j \<in> set (trace s)) \<and>
     (\<forall>k<length (trace s). \<forall>j.
        trace s ! k = StreamBegun j \<or> trace s ! k = Answered500 j \<longrightarrow>
        Released j \<in> set (take k (trace s)))"

section \<open>File names\<close>

lemma permitted_originalName: "\<forall>c \<in> set (originalName n). permitted c"
  by (simp add: originalName_def strip_disallowed_def)

lemma originalName_nonempty:
  "\<exists>c \<in> set s. permitted c \<Longrightarrow> originalName (Some s) \<noteq> []"
  by (auto simp: originalName_def strip_disallowed_def name_or_default_def filter_empty_conv)

lemma originalName_Some: "s \<noteq> [] \<Longrightarrow> originalName (Some s) = filter permitted s"
  by (simp add: originalName_def strip_disallowed_def name_or_default_def)

lemma evil_name: "originalName (Some ''../../evil name!.mov'') = ''....evil name.mov''"
  by (simp add: originalName_def name_or_default_def strip_disallowed_def permitted_def
      word_char_def)

text \<open>
  Claim C8. The sanitized name \<^verbatim>\<open>originalName\<close> consists of permitted characters only (word
  characters, dot, hyphen, space): it is the caller's name with every other character
  removed. A name with at least one permitted character never sanitizes to the empty
  string. The name \<^verbatim>\<open>../../evil name!.mov\<close> sanitizes to exactly its permitted characters,
  \<^verbatim>\<open>....evil name.mov\<close>.
\<close>

theorem sanitized_name:
  "(\<forall>c \<in> set (originalName n). permitted c) \<and>
   originalName n = filter permitted (name_or_default n) \<and>
   (\<forall>s. (\<exists>c \<in> set s. permitted c) \<longrightarrow>
        originalName (Some s) \<noteq> [] \<and> originalName (Some s) = filter permitted s) \<and>
   originalName (Some ''../../evil name!.mov'') = filter permitted ''../../evil name!.mov'' \<and>
   originalName (Some ''../../evil name!.mov'') = ''....evil name.mov''"
proof (intro conjI allI impI)
  show "\<forall>c \<in> set (originalName n). permitted c"
    by (rule permitted_originalName)
  show "originalName n = filter permitted (name_or_default n)"
    by (simp only: originalName_def strip_disallowed_def)
  show "originalName (Some ''../../evil name!.mov'') = filter permitted ''../../evil name!.mov''"
    by (rule originalName_Some) (rule list.distinct)
  show "originalName (Some ''../../evil name!.mov'') = ''....evil name.mov''"
    by (rule evil_name)
next
  fix s
  assume p: "\<exists>c \<in> set s. permitted c"
  then show "originalName (Some s) \<noteq> []"
    by (rule originalName_nonempty)
  from p have "s \<noteq> []" by auto
  then show "originalName (Some s) = filter permitted s"
    by (rule originalName_Some)
qed

theorem sanitized_name_witness:
  "(\<exists>c \<in> set ''../../evil name!.mov''. permitted c) \<and>
   originalName (Some ''../../evil name!.mov'') \<noteq> [] \<and>
   originalName (Some ''../../evil name!.mov'') = ''....evil name.mov'' \<and>
   list_all permitted ''....evil name.mov''"
proof -
  have p: "\<exists>c \<in> set ''../../evil name!.mov''. permitted c"
    by (simp add: permitted_def word_char_def)
  have l: "list_all permitted ''....evil name.mov''"
    by (simp add: permitted_def word_char_def)
  from sanitized_name [of "Some ''../../evil name!.mov''"] p
  have "originalName (Some ''../../evil name!.mov'') \<noteq> []"
    and "originalName (Some ''../../evil name!.mov'') = ''....evil name.mov''"
    by blast+
  with p l show ?thesis by (intro conjI)
qed


section \<open>Rounding to a double\<close>

text \<open>The exponent found by halving and doubling is the binary exponent.\<close>

lemma two_powi_Suc: "(2::real) powi (e + 1) = 2 powi e * 2"
  by (simp add: power_int_add)

lemma up_exp_bounds:
  "1 \<le> x \<Longrightarrow> 2 powi up_exp x \<le> x \<and> x < 2 powi (up_exp x + 1)"
proof (induction x rule: up_exp.induct)
  case (1 x)
  show ?case
  proof (cases "x < 2")
    case True
    then have "up_exp x = 0" by (simp add: up_exp.simps)
    with True "1.prems" show ?thesis by simp
  next
    case False
    then have e: "up_exp x = up_exp (x / 2) + 1" by (subst up_exp.simps) simp
    from False have "1 \<le> x / 2" by simp
    from "1.IH" [OF False this]
    have "2 powi up_exp (x / 2) \<le> x / 2" "x / 2 < 2 powi (up_exp (x / 2) + 1)" by simp_all
    then show ?thesis unfolding e two_powi_Suc [of "up_exp (x / 2) + 1"] two_powi_Suc [of "up_exp (x / 2)"]
      by simp
  qed
qed

lemma down_exp_bounds:
  "0 < x \<Longrightarrow> x < 1 \<Longrightarrow> 2 powi down_exp x \<le> x \<and> x < 2 powi (down_exp x + 1)"
proof (induction x rule: down_exp.induct)
  case (1 x)
  from "1.prems" have e: "down_exp x = down_exp (2 * x) - 1" by (subst down_exp.simps) simp
  show ?case
  proof (cases "2 * x < 1")
    case True
    from "1.prems" have c: "0 < x \<and> x < 1" by simp
    from "1.prems" have "0 < 2 * x" by simp
    from "1.IH" [OF c this True]
    have "2 powi down_exp (2 * x) \<le> 2 * x" "2 * x < 2 powi (down_exp (2 * x) + 1)" by simp_all
    moreover have "(2::real) powi down_exp (2 * x) = 2 powi (down_exp (2 * x) - 1) * 2"
      using two_powi_Suc [of "down_exp (2 * x) - 1"] by simp
    ultimately show ?thesis unfolding e two_powi_Suc [of "down_exp (2 * x)"]
      by simp
  next
    case False
    then have "down_exp (2 * x) = 0" by (subst down_exp.simps) simp
    with e have "down_exp x = - 1" by simp
    with False "1.prems" show ?thesis by simp
  qed
qed

lemma exponent_bounds:
  assumes "0 < x"
  shows "2 powi exponent x \<le> x" and "x < 2 powi (exponent x + 1)"
  using assms up_exp_bounds [of x] down_exp_bounds [of x]
  by (auto simp: exponent_def not_le)

lemma exponent_unique:
  assumes "0 < x" and "2 powi a \<le> x" and "x < 2 powi (a + 1)"
  shows "exponent x = a"
proof -
  from exponent_bounds [OF assms(1)] assms(3)
  have "(2::real) powi exponent x < 2 powi (a + 1)" by linarith
  then have 1: "exponent x < a + 1"
    using power_int_increasing [of "a + 1" "exponent x" "2::real"] by (cases "exponent x < a + 1") auto
  from exponent_bounds [OF assms(1)] assms(2)
  have "(2::real) powi a < 2 powi (exponent x + 1)" by linarith
  then have 2: "a < exponent x + 1"
    using power_int_increasing [of "exponent x + 1" a "2::real"] by (cases "a < exponent x + 1") auto
  from 1 2 show ?thesis by simp
qed

lemma exponent_mono:
  assumes "0 < y" and "y \<le> z"
  shows "exponent y \<le> exponent z"
proof -
  from assms have z: "0 < z" by simp
  from exponent_bounds(1) [OF assms(1)] exponent_bounds(2) [OF z] assms(2)
  have "(2::real) powi exponent y < 2 powi (exponent z + 1)" by linarith
  then have "exponent y < exponent z + 1"
    using power_int_increasing [of "exponent z + 1" "exponent y" "2::real"]
    by (cases "exponent y < exponent z + 1") auto
  then show ?thesis by simp
qed

lemma round_half_even_near:
  "real_of_int (round_half_even t) \<le> t + 1 / 2" "t - 1 / 2 \<le> real_of_int (round_half_even t)"
  by (auto simp: round_half_even_def Let_def) linarith+

lemma round_half_even_of_int [simp]: "round_half_even (of_int k) = k"
  by (simp add: round_half_even_def)

lemma round_half_even_mono:
  assumes "s \<le> t"
  shows "round_half_even s \<le> round_half_even t"
proof (rule ccontr)
  assume "\<not> round_half_even s \<le> round_half_even t"
  then have "round_half_even t + 1 \<le> round_half_even s" by simp
  then have "real_of_int (round_half_even t) + 1 \<le> real_of_int (round_half_even s)"
    by linarith
  with round_half_even_near(1) [of s] round_half_even_near(2) [of t] assms
  have "s = t" by linarith
  with \<open>\<not> round_half_even s \<le> round_half_even t\<close> show False by simp
qed

lemma round_half_even_le: "t \<le> of_int k \<Longrightarrow> round_half_even t \<le> k"
  using round_half_even_mono [of t "of_int k"] by simp

lemma round_half_even_ge: "of_int k \<le> t \<Longrightarrow> k \<le> round_half_even t"
  using round_half_even_mono [of "of_int k" t] by simp

text \<open>The unit in the last place used for \<open>x\<close>.\<close>

lemma round_val_eq:
  "round_val x =
     of_int (round_half_even (x / 2 powi (max (exponent x) (- 1022) - 52)))
       * 2 powi (max (exponent x) (- 1022) - 52)"
  by (simp add: round_val_def Let_def)

lemma powi_split: "(2::real) powi (e + 1) = 2 ^ 53 * 2 powi (e - 52)"
proof -
  have "e + 1 = 53 + (e - 52)" by simp
  then have "(2::real) powi (e + 1) = 2 powi (53 + (e - 52))" by (rule arg_cong)
  also have "\<dots> = 2 powi 53 * 2 powi (e - 52)" by (rule power_int_add) simp
  finally show ?thesis by simp
qed

lemma powi_split52: "(2::real) powi e = 2 ^ 52 * 2 powi (e - 52)"
proof -
  have "e = 52 + (e - 52)" by simp
  then have "(2::real) powi e = 2 powi (52 + (e - 52))" by (rule arg_cong)
  also have "\<dots> = 2 powi 52 * 2 powi (e - 52)" by (rule power_int_add) simp
  finally show ?thesis by simp
qed

lemma round_val_upper:
  assumes "0 < x"
  shows "round_val x \<le> 2 powi (max (exponent x) (- 1022) + 1)"
proof -
  let ?e = "max (exponent x) (- 1022)"
  let ?q = "(2::real) powi (?e - 52)"
  have q: "0 < ?q" by simp
  have "x < 2 powi (exponent x + 1)" by (rule exponent_bounds(2) [OF assms])
  also have "\<dots> \<le> 2 powi (?e + 1)" by (rule power_int_increasing) simp_all
  finally have "x < 2 ^ 53 * ?q" unfolding powi_split [of ?e] .
  then have "x / ?q \<le> of_int (2 ^ 53)" using q by (simp add: field_simps)
  then have "round_half_even (x / ?q) \<le> 2 ^ 53" by (rule round_half_even_le)
  then have "real_of_int (round_half_even (x / ?q)) \<le> of_int (2 ^ 53)"
    by (simp only: of_int_le_iff)
  then have "real_of_int (round_half_even (x / ?q)) \<le> 2 ^ 53" by simp
  then have "real_of_int (round_half_even (x / ?q)) * ?q \<le> 2 ^ 53 * ?q"
    using q by (simp only: mult_le_cancel_right_pos)
  then show ?thesis unfolding round_val_eq powi_split [of ?e] .
qed

lemma round_val_lower:
  assumes "0 < x" and "- 1022 \<le> exponent x"
  shows "2 powi exponent x \<le> round_val x"
proof -
  from assms(2) have e: "max (exponent x) (- 1022) = exponent x" by simp
  let ?q = "(2::real) powi (exponent x - 52)"
  have q: "0 < ?q" by simp
  have "2 ^ 52 * ?q \<le> x" using exponent_bounds(1) [OF assms(1)] unfolding powi_split52 [of "exponent x"] .
  then have "of_int (2 ^ 52) \<le> x / ?q" using q by (simp add: field_simps)
  then have "2 ^ 52 \<le> round_half_even (x / ?q)" by (rule round_half_even_ge)
  then have "of_int (2 ^ 52) \<le> real_of_int (round_half_even (x / ?q))"
    by (simp only: of_int_le_iff)
  then have "2 ^ 52 \<le> real_of_int (round_half_even (x / ?q))" by simp
  then have "2 ^ 52 * ?q \<le> real_of_int (round_half_even (x / ?q)) * ?q"
    using q by (simp only: mult_le_cancel_right_pos)
  then show ?thesis unfolding round_val_eq e powi_split52 [of "exponent x"] .
qed

lemma round_val_nonneg: "0 \<le> x \<Longrightarrow> 0 \<le> round_val x"
proof -
  assume "0 \<le> x"
  then have "of_int 0 \<le> x / 2 powi (max (exponent x) (- 1022) - 52)" by simp
  then have "0 \<le> round_half_even (x / 2 powi (max (exponent x) (- 1022) - 52))"
    by (rule round_half_even_ge)
  then show ?thesis unfolding round_val_eq by simp
qed

lemma round_val_mono:
  assumes "0 < y" and "y \<le> z"
  shows "round_val y \<le> round_val z"
proof -
  from assms have z: "0 < z" by simp
  let ?ey = "max (exponent y) (- 1022)" and ?ez = "max (exponent z) (- 1022)"
  from exponent_mono [OF assms] have le: "?ey \<le> ?ez" by simp
  show ?thesis
  proof (cases "?ey = ?ez")
    case True
    let ?q = "(2::real) powi (?ez - 52)"
    have q: "0 < ?q" by simp
    from assms(2) q have "y / ?q \<le> z / ?q" by (simp add: divide_right_mono)
    then have "round_half_even (y / ?q) \<le> round_half_even (z / ?q)" by (rule round_half_even_mono)
    then have "real_of_int (round_half_even (y / ?q)) \<le> real_of_int (round_half_even (z / ?q))"
      by linarith
    then have "real_of_int (round_half_even (y / ?q)) * ?q \<le> real_of_int (round_half_even (z / ?q)) * ?q"
      using q by (simp only: mult_le_cancel_right_pos)
    then show ?thesis unfolding round_val_eq [of y] round_val_eq [of z] True .
  next
    case False
    with le have lt: "?ey + 1 \<le> ?ez" by simp
    then have ez: "?ez = exponent z" "- 1022 \<le> exponent z" by simp_all
    have "round_val y \<le> 2 powi (?ey + 1)" by (rule round_val_upper [OF assms(1)])
    also have "\<dots> \<le> 2 powi ?ez" using lt by (intro power_int_increasing) simp_all
    also have "\<dots> = 2 powi exponent z" by (simp only: ez(1))
    also have "\<dots> \<le> round_val z" by (rule round_val_lower [OF z ez(2)])
    finally show ?thesis .
  qed
qed

text \<open>A value whose quotient by its unit in the last place is whole is not changed.\<close>

lemma round_val_exact:
  assumes "x / 2 powi (max (exponent x) (- 1022) - 52) = of_int k"
  shows "round_val x = x"
proof -
  have "round_val x = of_int k * 2 powi (max (exponent x) (- 1022) - 52)"
    unfolding round_val_eq assms by simp
  also have "\<dots> = x" using assms by (simp add: field_simps)
  finally show ?thesis .
qed

lemma round_val_idem:
  assumes "0 < x"
  shows "round_val (round_val x) = round_val x"
proof (cases "round_val x = 0")
  case True
  then show ?thesis by (simp add: round_val_def Let_def round_half_even_def)
next
  case False
  let ?e = "max (exponent x) (- 1022)"
  let ?q = "(2::real) powi (?e - 52)"
  let ?n = "round_half_even (x / ?q)"
  let ?r = "round_val x"
  have q: "0 < ?q" by simp
  have r: "?r = of_int ?n * ?q" by (rule round_val_eq)
  from False round_val_nonneg [of x] assms have rpos: "0 < ?r" by simp
  have up: "?r \<le> 2 powi (?e + 1)" by (rule round_val_upper [OF assms])
  show ?thesis
  proof (cases "?r = 2 powi (?e + 1)")
    case True
    have "exponent ?r = ?e + 1"
    proof (rule exponent_unique [OF rpos])
      show "2 powi (?e + 1) \<le> ?r" using True by simp
      have "(2::real) powi (?e + 1) < 2 powi (?e + 1 + 1)"
        by (rule power_int_strict_increasing) simp_all
      then show "?r < 2 powi (?e + 1 + 1)" using True by simp
    qed
    then have m: "max (exponent ?r) (- 1022) = ?e + 1" by simp
    have "?r / 2 powi (?e + 1 - 52) = of_int (2 ^ 52)"
    proof -
      have "(2::real) powi (?e + 1) = 2 ^ 52 * 2 powi (?e + 1 - 52)" by (rule powi_split52)
      then show ?thesis unfolding True by simp
    qed
    then show ?thesis by (intro round_val_exact [of _ "2 ^ 52"]) (simp only: m)
  next
    case False
    with up have lt: "?r < 2 powi (?e + 1)" by simp
    have "max (exponent ?r) (- 1022) = ?e"
    proof (cases "- 1022 \<le> exponent x")
      case True
      then have e: "?e = exponent x" by simp
      have "exponent ?r = exponent x"
      proof (rule exponent_unique [OF rpos])
        show "2 powi exponent x \<le> ?r" by (rule round_val_lower [OF assms True])
        show "?r < 2 powi (exponent x + 1)" using lt unfolding e .
      qed
      with e show ?thesis by simp
    next
      case False
      then have e: "?e = - 1022" by simp
      from lt have "?r < 2 powi (- 1022 + 1)" unfolding e .
      with exponent_bounds(1) [OF rpos] have "(2::real) powi exponent ?r < 2 powi (- 1022 + 1)"
        by linarith
      then have "exponent ?r < - 1022 + 1"
        using power_int_increasing [of "- 1022 + 1" "exponent ?r" "2::real"]
        by (cases "exponent ?r < - 1022 + 1") auto
      with e show ?thesis by simp
    qed
    then have m: "max (exponent ?r) (- 1022) = ?e" .
    have "?r / ?q = of_int ?n" using r q by simp
    then show ?thesis by (intro round_val_exact [of _ ?n]) (simp only: m)
  qed
qed

lemma round_val_of_int:
  assumes "0 < k" and "k \<le> 2 ^ 53"
  shows "round_val (of_int k) = of_int k"
proof -
  let ?x = "real_of_int k"
  from assms have x: "0 < ?x" "1 \<le> ?x" "?x \<le> 2 ^ 53" by simp_all
  have "(2::real) powi 0 < 2 powi (exponent ?x + 1)"
    using exponent_bounds(2) [OF x(1)] x(2) by simp
  then have lo: "0 \<le> exponent ?x"
    using power_int_increasing [of "exponent ?x + 1" 0 "2::real"]
    by (cases "0 < exponent ?x + 1") auto
  have "(2::real) powi exponent ?x \<le> 2 powi 53"
    using exponent_bounds(1) [OF x(1)] x(3) by simp
  then have hi: "exponent ?x \<le> 53"
    using power_int_strict_increasing [of 53 "exponent ?x" "2::real"]
    by (cases "exponent ?x \<le> 53") auto
  from lo have m: "max (exponent ?x) (- 1022) = exponent ?x" by simp
  show ?thesis
  proof (cases "exponent ?x = 53")
    case True
    with exponent_bounds(1) [OF x(1)] x(3) have "?x = 2 ^ 53" by simp
    then have "?x / 2 powi (53 - 52) = of_int (2 ^ 52)" by simp
    then show ?thesis by (intro round_val_exact [of _ "2 ^ 52"]) (simp only: m True)
  next
    case False
    with hi have h: "exponent ?x \<le> 52" by simp
    define j where "j = nat (52 - exponent ?x)"
    with h have j: "exponent ?x - 52 = - int j" by simp
    have "?x / 2 powi (exponent ?x - 52) = of_int (k * 2 ^ j)"
      unfolding j by (simp add: power_int_minus field_simps)
    then show ?thesis by (intro round_val_exact [of _ "k * 2 ^ j"]) (simp only: m)
  qed
qed

lemma round_pos_cases: "round_pos x = Num (round_val x) \<or> round_pos x = PosInf"
  by (simp add: round_pos_def)

lemma round64_not_NaN [simp]: "round64 x \<noteq> NaN"
  using round_pos_cases [of x] round_pos_cases [of "- x"]
  by (auto simp: round64_def js_neg_def)

lemma round64_pos_cases:
  assumes "0 < x"
  shows "round64 x = PosInf \<or> (\<exists>r. round64 x = Num r \<and> 0 \<le> r \<and> r = round_val x)"
  using assms round_pos_cases [of x] round_val_nonneg [of x] by (auto simp: round64_def)

text \<open>Rounding keeps a bound that is a whole number of at most 53 bits.\<close>

lemma round64_le_int:
  assumes "0 \<le> y" and "y \<le> of_int k" and "k \<le> 2 ^ 53"
  shows "\<exists>r. round64 y = Num r \<and> 0 \<le> r \<and> r \<le> of_int k"
proof (cases "y = 0")
  case True
  with assms show ?thesis by (simp add: round64_def)
next
  case False
  with assms have y: "0 < y" by simp
  with assms have k: "0 < k" by linarith
  have "round_val y \<le> round_val (of_int k)" by (rule round_val_mono [OF y assms(2)])
  also have "\<dots> = of_int k" by (rule round_val_of_int [OF k assms(3)])
  finally have le: "round_val y \<le> of_int k" .
  have "real_of_int k \<le> of_int (2 ^ 53)" using assms(3) by (simp only: of_int_le_iff)
  also have "\<dots> < 2 powi 1024" by simp
  finally have "round_val y < 2 powi 1024" using le by linarith
  with y le round_val_nonneg [of y] show ?thesis by (simp add: round64_def round_pos_def)
qed

lemma round64_of_int:
  assumes "0 \<le> k" and "k \<le> 2 ^ 53"
  shows "round64 (of_int k) = Num (of_int k)"
proof (cases "k = 0")
  case True
  then show ?thesis by (simp add: round64_def)
next
  case False
  with assms have k: "0 < k" by simp
  have v: "round_val (of_int k) = of_int k" by (rule round_val_of_int [OF k assms(2)])
  have "real_of_int k \<le> of_int (2 ^ 53)" using assms(2) by (simp only: of_int_le_iff)
  also have "\<dots> < 2 powi 1024" by simp
  finally show ?thesis using k v by (simp add: round64_def round_pos_def)
qed

text \<open>Rounding is monotone (stated for positive arguments, with the values made explicit).\<close>

lemma round64_mono:
  assumes "0 < y" and "y \<le> z" and "round64 z = Num s"
  shows "\<exists>r. round64 y = Num r \<and> 0 \<le> r \<and> r \<le> s"
proof -
  from assms have z: "0 < z" by simp
  from assms(3) z have s: "round_val z < 2 powi 1024" "s = round_val z"
    by (auto simp: round64_def round_pos_def split: if_splits)
  have "round_val y \<le> round_val z" by (rule round_val_mono [OF assms(1,2)])
  with s assms(1) round_val_nonneg [of y] show ?thesis
    by (simp add: round64_def round_pos_def)
qed

text \<open>A result of rounding is a fixed point of rounding.\<close>

lemma round_pos_idem:
  assumes "0 < x" and "round_pos x = Num r"
  shows "round64 r = Num r"
proof -
  from assms(2) have r: "round_val x < 2 powi 1024" "r = round_val x"
    by (auto simp: round_pos_def split: if_splits)
  show ?thesis
  proof (cases "r = 0")
    case True
    then show ?thesis by (simp add: round64_def)
  next
    case False
    with r round_val_nonneg [of x] assms(1) have "0 < r" by simp
    moreover have "round_val r = r" unfolding r(2) by (rule round_val_idem [OF assms(1)])
    ultimately show ?thesis using r by (simp add: round64_def round_pos_def)
  qed
qed

lemma round64_neg: "round64 (- x) = js_neg (round64 x)"
  using round_pos_cases [of x] round_pos_cases [of "- x"]
  by (auto simp: round64_def js_neg_def)

lemma round64_idem:
  assumes "round64 x = Num r"
  shows "round64 r = Num r"
proof -
  consider "x = 0" | "0 < x" | "x < 0" by linarith
  then show ?thesis
  proof cases
    case 1
    with assms show ?thesis by (simp add: round64_def)
  next
    case 2
    with assms have "round_pos x = Num r" by (simp add: round64_def)
    with 2 show ?thesis by (rule round_pos_idem)
  next
    case 3
    with assms have "js_neg (round_pos (- x)) = Num r" by (simp add: round64_def)
    then have "round_pos (- x) = Num (- r)"
      by (cases "round_pos (- x)") (simp_all add: js_neg_def)
    with 3 have "round64 (- r) = Num (- r)" by (intro round_pos_idem [of "- x"]) simp_all
    then have "js_neg (round64 r) = Num (- r)" by (simp only: round64_neg)
    then show ?thesis by (cases "round64 r") (simp_all add: js_neg_def)
  qed
qed

text \<open>The order on JavaScript numbers.\<close>

lemma js_le_refl: "a \<noteq> NaN \<Longrightarrow> js_le a a"
  by (cases a) simp_all

lemma js_le_trans: "js_le a b \<Longrightarrow> js_le b c \<Longrightarrow> js_le a c"
  by (cases a; cases b; cases c) simp_all

lemma js_le_not_NaN: "js_le a b \<Longrightarrow> a \<noteq> NaN \<and> b \<noteq> NaN"
  by (cases a; cases b) simp_all

lemma js_lt_iff: "js_lt a b \<longleftrightarrow> js_le a b \<and> a \<noteq> b"
  by (cases a; cases b) auto

lemma js_le_total: "a \<noteq> NaN \<Longrightarrow> b \<noteq> NaN \<Longrightarrow> js_le a b \<or> js_le b a"
  by (cases a; cases b) auto

lemma js_max_NaN [simp]: "js_max NaN b = NaN" "js_max a NaN = NaN"
  by (simp_all add: js_max_def)

lemma js_max_ge:
  assumes "b \<noteq> NaN"
  shows "js_le (Num c) (js_max (Num c) b)" and "js_le b (js_max (Num c) b)"
  using assms js_le_total [of "Num c" b] by (auto simp: js_max_def js_le_refl)

lemma js_max_cases: "js_max a b = NaN \<or> js_max a b = a \<or> js_max a b = b"
  by (simp add: js_max_def)

lemma js_max_Num [simp]: "js_max (Num x) (Num y) = Num (max x y)"
  by (simp add: js_max_def max_def)

lemma js_max_PosInf [simp]: "js_max (Num x) PosInf = PosInf"
  by (simp add: js_max_def)


text \<open>The error of rounding a value in the normal range is at most half a unit in the last place.\<close>

lemma round_val_error:
  assumes "0 < x" and "- 1022 \<le> exponent x"
  shows "\<bar>round_val x - x\<bar> \<le> x / 2 ^ 53"
proof -
  from assms(2) have e: "max (exponent x) (- 1022) = exponent x" by simp
  let ?q = "(2::real) powi (exponent x - 52)"
  let ?n = "round_half_even (x / ?q)"
  have q: "0 < ?q" by simp
  have r: "round_val x = of_int ?n * ?q" unfolding round_val_eq e ..
  from round_half_even_near [of "x / ?q"]
  have "\<bar>real_of_int ?n - x / ?q\<bar> \<le> 1 / 2" by linarith
  then have "\<bar>real_of_int ?n - x / ?q\<bar> * ?q \<le> 1 / 2 * ?q"
    using q by (simp only: mult_le_cancel_right_pos)
  moreover have "\<bar>real_of_int ?n - x / ?q\<bar> * ?q = \<bar>real_of_int ?n * ?q - x\<bar>"
  proof -
    have "\<bar>real_of_int ?n - x / ?q\<bar> * ?q = \<bar>(real_of_int ?n - x / ?q) * ?q\<bar>"
      using q by (simp add: abs_mult)
    also have "(real_of_int ?n - x / ?q) * ?q = real_of_int ?n * ?q - x"
      using q by (simp add: field_simps)
    finally show ?thesis .
  qed
  ultimately have a: "\<bar>round_val x - x\<bar> \<le> ?q / 2" unfolding r by simp
  have "2 ^ 52 * ?q \<le> x"
    using exponent_bounds(1) [OF assms(1)] unfolding powi_split52 [of "exponent x"] .
  then have "?q / 2 \<le> x / 2 ^ 53" by simp
  with a show ?thesis by linarith
qed

lemma exponent_ge:
  assumes "0 < x" and "2 powi a \<le> x"
  shows "a \<le> exponent x"
proof (rule ccontr)
  assume "\<not> a \<le> exponent x"
  then have "exponent x + 1 \<le> a" by simp
  then have "(2::real) powi (exponent x + 1) \<le> 2 powi a"
    by (intro power_int_increasing) simp_all
  with exponent_bounds(2) [OF assms(1)] assms(2) show False by linarith
qed

lemma round64_error:
  assumes "2 powi (- 1022) \<le> y" and "y \<le> of_int k" and "k \<le> 2 ^ 53"
  shows "\<exists>r. round64 y = Num r \<and> \<bar>r - y\<bar> \<le> y / 2 ^ 53"
proof -
  have p: "(0::real) < 2 powi (- 1022)" by simp
  with assms(1) have y: "0 < y" by linarith
  then have y0: "0 \<le> y" by simp
  from round64_le_int [OF y0 assms(2,3)] obtain r where r: "round64 y = Num r" by blast
  with y have "r = round_val y"
    by (auto simp: round64_def round_pos_def split: if_splits)
  with round_val_error [OF y exponent_ge [OF y assms(1)]] r show ?thesis by blast
qed

text \<open>\<^verbatim>\<open>NaN\<close> spreads through every operation.\<close>

lemma js_NaN [simp]:
  "js_div a NaN = NaN" "js_mul a NaN = NaN" "js_sub a NaN = NaN"
  by (cases a; simp)+

section \<open>The duration and the bitrate plan\<close>

text \<open>Unfolding these evaluates the rounding of a given rational number.\<close>

lemmas round64_eval = round64_def round_pos_def round_val_def exponent_def down_exp.simps
  up_exp.simps round_half_even_def js_neg_def Let_def

lemmas string_to_number_eval = string_to_number_def trim_def str_white_space_def str_numeric_def
  radix_of_def str_decimal_def str_unsigned_decimal_def decimal_digit_def exponent_part_def
  signed_integer_def digits_in_def number_in_def digit_value_def

lemma literals:
  "round64 1 = Num 1"
  "round64 (82 / 100) = Num (7385903388887613 / 9007199254740992)"
  "round64 (68 / 100) = Num (6124895493223875 / 9007199254740992)"
  "round64 (56 / 100) = Num (1261007895663739 / 2251799813685248)"
  "round64 (85 / 100) = Num (7656119366529843 / 9007199254740992)"
  "round64 (72 / 100) = Num (3242591731706757 / 4503599627370496)"
  by (simp_all add: round64_eval)

subsection \<open>The duration\<close>

text \<open>
  An absent format, an absent duration and every duration that is a number give a
  duration of at least one second: zero and \<^verbatim>\<open>NaN\<close> are falsy and replaced by 1, and a
  negative number or a fraction of a second is raised to 1.
\<close>

lemma js_max_one: "a \<noteq> NaN \<Longrightarrow> js_le (Num 1) (js_max (Num 1) a)"
  by (rule js_max_ge)

lemma duration_absent: "format meta = None \<Longrightarrow> duration meta = Num 1"
  by (simp add: duration_def or_one_def truthy_def to_number_def)

lemma duration_of_number:
  assumes "format meta = Some f" and "duration_field f = JUndefined \<or> duration_field f = JNumber a"
  shows "js_le (Num 1) (duration meta)" and "duration_retry meta = Inr (duration meta)"
    and "duration_field f = JUndefined \<or> a = Num 0 \<or> a = NaN \<Longrightarrow> duration meta = Num 1"
  using assms js_max_one [of a]
  by (auto simp: duration_def duration_retry_def or_one_def truthy_def to_number_def)

text \<open>
  The duration is \<^verbatim>\<open>NaN\<close> exactly for a non-empty string that does not read as a number;
  in every other case it is at least 1. It is never zero.
\<close>

lemma duration_NaN_iff:
  "duration meta = NaN \<longleftrightarrow>
     (\<exists>f s. format meta = Some f \<and> duration_field f = JString s \<and> s \<noteq> [] \<and>
            string_to_number s = NaN)"
proof (cases "format meta")
  case None
  then show ?thesis by (simp add: duration_absent)
next
  case (Some f)
  show ?thesis
  proof (cases "duration_field f")
    case JUndefined
    with Some show ?thesis
      by (simp add: duration_def or_one_def truthy_def to_number_def)
  next
    case (JNumber a)
    with Some duration_of_number(1) [of meta f a] show ?thesis by auto
  next
    case (JString s)
    with Some show ?thesis
      by (cases "string_to_number s")
        (auto simp: duration_def or_one_def truthy_def to_number_def js_max_def)
  qed
qed

lemma duration_ge_1: "duration meta \<noteq> NaN \<Longrightarrow> js_le (Num 1) (duration meta)"
  unfolding duration_def by (rule js_max_one) (auto simp: js_max_def)

lemma duration_not_zero: "duration meta \<noteq> Num 0"
proof (cases "duration meta = NaN")
  case True
  then show ?thesis by simp
next
  case False
  then have "js_le (Num 1) (duration meta)" by (rule duration_ge_1)
  then show ?thesis by (cases "duration meta") auto
qed

text \<open>
  Claim C7 fails on the code. ffprobe reports a container without a duration as
  \<^verbatim>\<open>N/A\<close>, and this string reaches the handler as it is. It is truthy, so
  \<^verbatim>\<open>meta.format.duration || 1\<close> keeps it, and \<^verbatim>\<open>Math.max(1, 'N/A')\<close> is \<^verbatim>\<open>NaN\<close>: the duration
  fed to the planner is not at least 1, the total and the initial video bitrate are
  \<^verbatim>\<open>NaN\<close>, and the encoder is invoked with that bitrate, in all three revisions.
\<close>

theorem duration_not_a_number:
  "duration \<lparr>format = Some \<lparr>duration_field = JString ''N/A''\<rparr>\<rparr> = NaN \<and>
   duration_retry \<lparr>format = Some \<lparr>duration_field = JString ''N/A''\<rparr>\<rparr> = Inr NaN \<and>
   \<not> js_le (Num 1) (duration \<lparr>format = Some \<lparr>duration_field = JString ''N/A''\<rparr>\<rparr>) \<and>
   totalKbps_queued (duration \<lparr>format = Some \<lparr>duration_field = JString ''N/A''\<rparr>\<rparr>)
     (targetBytes default_config) = NaN \<and>
   initialVideoKbps_queued (duration \<lparr>format = Some \<lparr>duration_field = JString ''N/A''\<rparr>\<rparr>)
     (targetBytes default_config) (AUDIO_KBPS default_config) = NaN \<and>
   map videoKbps (invoked (upload_queued default_config
     (mock_probe (JString ''N/A'') [Some (9 * MB)]) sample_request)) = [NaN] \<and>
   map videoKbps (invoked (upload_simple default_config
     (mock_probe (JString ''N/A'') [Some (9 * MB)]) sample_request)) = [NaN] \<and>
   map videoKbps (invoked (upload_retry default_config
     (mock_probe (JString ''N/A'') [Some (9 * MB)]) sample_request)) = [NaN]"
proof -
  have s: "string_to_number ''N/A'' = NaN"
    by (simp add: string_to_number_eval)
  have d: "duration \<lparr>format = Some \<lparr>duration_field = JString ''N/A''\<rparr>\<rparr> = NaN"
    "duration_retry \<lparr>format = Some \<lparr>duration_field = JString ''N/A''\<rparr>\<rparr> = Inr NaN"
    by (simp_all add: duration_def duration_retry_def or_one_def truthy_def to_number_def s)
  have t: "targetBytes default_config = 10276044"
    by (simp add: targetBytes_def default_config_def)
  have p: "totalKbps_queued NaN tb = NaN" "initialVideoKbps_queued NaN tb a = NaN"
    "initialVideoKbps_simple NaN tb a = NaN" for tb a
    by (simp_all add: totalKbps_queued_def initialVideoKbps_queued_def totalKbps_simple_def
        initialVideoKbps_simple_def)
  have q: "map videoKbps (invoked (upload_queued default_config
     (mock_probe (JString ''N/A'') [Some (9 * MB)]) sample_request)) = [NaN]"
    by (simp add: upload_queued_def job_queued_def Let_def mock_probe_def mock_size_def
        attempt_no_def sample_request_def sample_file_def MB_def factors_def d p t)
  have u: "map videoKbps (invoked (upload_simple default_config
     (mock_probe (JString ''N/A'') [Some (9 * MB)]) sample_request)) = [NaN]"
    by (simp add: upload_simple_def Let_def mock_probe_def mock_size_def
        attempt_no_def sample_request_def sample_file_def MB_def passes_def d p t)
  have r: "map videoKbps (invoked (upload_retry default_config
     (mock_probe (JString ''N/A'') [Some (9 * MB)]) sample_request)) = [NaN]"
    by (simp add: upload_retry_def retry_delivered_def retry_failed_def Let_def mock_probe_def
        mock_size_def attempt_no_def sample_request_def sample_file_def MB_def d p t)
  from d p q u r show ?thesis by simp
qed

subsection \<open>The plan\<close>

lemma simple_is_spec:
  "totalKbps_simple d tb = spec_totalKbps 200 d tb"
  "initialVideoKbps_simple d tb a = spec_plan 200 64 d tb a"
  by (simp_all add: totalKbps_simple_def spec_totalKbps_def initialVideoKbps_simple_def
      spec_plan_def)

lemma queued_is_spec:
  "totalKbps_queued d tb = spec_totalKbps 180 d tb"
  "initialVideoKbps_queued d tb a = spec_plan 180 56 d tb a"
  by (simp_all add: totalKbps_queued_def spec_totalKbps_def initialVideoKbps_queued_def
      spec_plan_def)

text \<open>No step of the plan yields \<^verbatim>\<open>NaN\<close> when the duration is a number other than zero.\<close>

lemma js_div_Num_not_NaN: "a \<noteq> NaN \<Longrightarrow> y \<noteq> 0 \<Longrightarrow> js_div a (Num y) \<noteq> NaN"
  by (cases a) (simp_all add: js_neg_def)

lemma js_floor_not_NaN: "a \<noteq> NaN \<Longrightarrow> js_floor a \<noteq> NaN"
  by (cases a) simp_all

lemma js_sub_Num_not_NaN: "a \<noteq> NaN \<Longrightarrow> js_sub a (Num y) \<noteq> NaN"
  by (cases a) simp_all

lemma spec_totalKbps_ge:
  assumes "x \<noteq> 0"
  shows "js_le (Num (of_int ft)) (spec_totalKbps ft (Num x) tb)"
  unfolding spec_totalKbps_def
  by (intro js_max_ge js_floor_not_NaN js_div_Num_not_NaN assms) simp_all

lemma spec_plan_ge:
  assumes "x \<noteq> 0"
  shows "js_le (Num (of_int fv)) (spec_plan ft fv (Num x) tb a)"
proof -
  from spec_totalKbps_ge [OF assms] have "spec_totalKbps ft (Num x) tb \<noteq> NaN"
    using js_le_not_NaN by blast
  then show ?thesis
    unfolding spec_plan_def by (intro js_max_ge js_sub_Num_not_NaN)
qed


lemma product_exact:
  assumes "0 < tb" and "tb * 8 \<le> 2 ^ 53"
  shows "js_mul (Num (of_int tb)) (Num 8) = Num (of_int tb * 8)"
  using round64_of_int [of "tb * 8"] assms by simp




text \<open>
  Rounding is visible in the plan. For the duration nearest to 34.25348 seconds the
  quotient \<open>82208352 / d\<close> rounds up to 2400000, and the total is 2400 kbps where the
  quotient of the real numbers gives 2399. For the duration nearest to 82.208352 seconds
  the total is 999 kbps, where the decimal number itself would give 1000.
\<close>

lemma rounded_plans:
  "round64 (3425348 / 100000) = Num (4820748742629461 / 140737488355328)"
  "totalKbps_simple (Num (4820748742629461 / 140737488355328)) 10276044 = Num 2400"
  "exact_totalKbps 200 (4820748742629461 / 140737488355328) 10276044 = 2399"
  "round64 (82208352 / 1000000) = Num (5784898491155353 / 70368744177664)"
  "totalKbps_simple (Num (5784898491155353 / 70368744177664)) 10276044 = Num 999"
  "exact_totalKbps 200 (82208352 / 1000000) 10276044 = 1000"
  by (simp_all add: totalKbps_simple_def exact_totalKbps_def round64_eval)

text \<open>
  For a budget below \<open>2 ^ 50\<close> bytes and a duration from 1 to \<open>2 ^ 1000\<close> seconds the
  rounded quotient is within 3/1000 of the quotient of the real numbers, so the total
  bitrate of the program is within 1 kbps of the formula read over the real numbers.
\<close>

lemma total_near_exact:
  assumes tb: "0 < tb" "tb * 8 \<le> 2 ^ 53" and x: "1 \<le> x" "x \<le> 2 ^ 1000"
  shows "\<exists>k. spec_totalKbps ft (Num x) tb = Num (of_int k) \<and>
             \<bar>k - exact_totalKbps ft x tb\<bar> \<le> 1"
proof -
  define N where "N = real_of_int (tb * 8)"
  define e1 where "e1 = N / x"
  have N: "8 \<le> N" "N \<le> 2 ^ 53"
    using tb unfolding N_def by (simp, metis of_int_le_iff of_int_numeral of_int_power)
  from x have xp: "0 < x" by simp
  have e1: "e1 \<le> N" "N / 2 ^ 1000 \<le> e1"
    using x N xp unfolding e1_def by (simp_all add: field_simps frac_le)
  have lo1: "2 powi (- 1022) \<le> e1"
  proof -
    have "(2::real) powi (- 1022) \<le> 8 / 2 ^ 1000" by (simp add: power_int_minus field_simps)
    also have "\<dots> \<le> N / 2 ^ 1000" using N(1) by (simp add: divide_right_mono)
    finally show ?thesis using e1(2) by linarith
  qed
  have "e1 \<le> of_int (tb * 8)" using e1(1) unfolding N_def .
  from round64_error [OF lo1 this tb(2)] obtain r1
    where r1: "round64 e1 = Num r1" "\<bar>r1 - e1\<bar> \<le> e1 / 2 ^ 53" by blast
  have e1p: "0 < e1" using lo1 by (simp add: less_le_trans [OF _ lo1])
  have r1b: "e1 / 2 \<le> r1" "r1 \<le> 2 * e1"
  proof -
    have "e1 / 2 ^ 53 \<le> e1 / 2" using e1p by (simp add: field_simps)
    with r1(2) show "e1 / 2 \<le> r1" "r1 \<le> 2 * e1" using e1p by linarith+
  qed
  define e2 where "e2 = r1 / 1000"
  have lo2: "2 powi (- 1022) \<le> e2"
  proof -
    have "(2::real) powi (- 1022) \<le> 8 / 2 ^ 1000 / 2000"
      by (simp add: power_int_minus field_simps)
    also have "\<dots> \<le> N / 2 ^ 1000 / 2000" using N(1) by (simp add: divide_right_mono)
    also have "\<dots> \<le> e1 / 2000" using e1(2) by (simp add: divide_right_mono)
    also have "\<dots> \<le> e2" using r1b(1) unfolding e2_def by simp
    finally show ?thesis .
  qed
  have "e2 \<le> of_int (tb * 8)"
    using r1b(2) e1(1) N(1) unfolding e2_def N_def by simp
  from round64_error [OF lo2 this tb(2)] obtain r2
    where r2: "round64 e2 = Num r2" "\<bar>r2 - e2\<bar> \<le> e2 / 2 ^ 53" by blast
  have "\<bar>e2 - e1 / 1000\<bar> = \<bar>r1 - e1\<bar> / 1000" unfolding e2_def by (simp add: field_simps)
  with r1(2) have d1: "\<bar>e2 - e1 / 1000\<bar> \<le> e1 / 2 ^ 53 / 1000" by simp
  have "e2 / 2 ^ 53 \<le> 2 * e1 / 1000 / 2 ^ 53"
    using r1b(2) unfolding e2_def by (simp add: divide_right_mono)
  with r2(2) have d2: "\<bar>r2 - e2\<bar> \<le> 2 * e1 / 1000 / 2 ^ 53" by linarith
  have "e1 / 2 ^ 53 \<le> 1" using e1(1) N(2) e1p by (simp add: field_simps)
  then have b: "e1 / 2 ^ 53 / 1000 \<le> 1 / 1000" "2 * e1 / 1000 / 2 ^ 53 \<le> 2 / 1000"
    by simp_all
  from d1 b(1) have d1': "\<bar>e2 - e1 / 1000\<bar> \<le> 1 / 1000" by (rule order_trans)
  from d2 b(2) have d2': "\<bar>r2 - e2\<bar> \<le> 2 / 1000" by (rule order_trans)
  from d1' d2' have near: "\<bar>r2 - e1 / 1000\<bar> \<le> 3 / 1000" by linarith
  then have fl: "\<bar>\<lfloor>r2\<rfloor> - \<lfloor>e1 / 1000\<rfloor>\<bar> \<le> 1" by linarith
  have v: "spec_totalKbps ft (Num x) tb = Num (of_int (max ft \<lfloor>r2\<rfloor>))"
    using r1(1) r2(1) xp product_exact [OF tb]
    unfolding spec_totalKbps_def e1_def e2_def N_def by (simp add: max_def)
  have w: "exact_totalKbps ft x tb = max ft \<lfloor>e1 / 1000\<rfloor>"
    unfolding exact_totalKbps_def e1_def N_def by simp
  from fl have "\<bar>max ft \<lfloor>r2\<rfloor> - max ft \<lfloor>e1 / 1000\<rfloor>\<bar> \<le> 1" by linarith
  with v w show ?thesis by auto
qed




section \<open>The multi-pass loop\<close>

text \<open>
  The attempts a loop adds do not depend on the attempts recorded before, so the loop can
  be studied from an empty record.
\<close>

lemma loop_acc:
  "passes_loop w cfg ip fo on init tb i fs \<lparr>lastOut = lo, vkbps = v, attempts = acc\<rparr> =
     (case passes_loop w cfg ip fo on init tb i fs \<lparr>lastOut = lo, vkbps = v, attempts = []\<rparr> of
        (e, r) \<Rightarrow> (e, r\<lparr>attempts := acc @ attempts r\<rparr>))"
proof (induction fs arbitrary: i lo v acc)
  case Nil
  show ?case by simp
next
  case (Cons f fs)
  show ?case
    apply (simp only: passes_loop.simps Let_def)
    apply (subst Cons.IH)
    apply (subst (2) Cons.IH)
    apply (simp split: option.splits prod.splits)
    done
qed

lemma loop_Cons:
  "passes_loop w cfg ip fo on init tb i (f # fs) \<lparr>lastOut = lo, vkbps = v, attempts = []\<rparr> =
     (let out = pass_out w fo on i; vk = pass_kbps init v i f
      in if \<not> encode w ip out vk (AUDIO_KBPS cfg) (MAX_WIDTH cfg)
         then (Some EncodeError,
               \<lparr>lastOut = lo, vkbps = vk,
                attempts = [\<lparr>index = i, outputLocation = out, videoKbps = vk, resultBytes = None\<rparr>]\<rparr>)
         else
           (case stat_size w out of
              None \<Rightarrow>
                (Some StatError,
                 \<lparr>lastOut = lo, vkbps = vk,
                  attempts = [\<lparr>index = i, outputLocation = out, videoKbps = vk, resultBytes = None\<rparr>]\<rparr>)
            | Some sz \<Rightarrow>
                if sz \<le> tb
                then (None,
                      \<lparr>lastOut = out, vkbps = vk,
                       attempts = [\<lparr>index = i, outputLocation = out, videoKbps = vk, resultBytes = Some sz\<rparr>]\<rparr>)
                else
                  (case passes_loop w cfg ip fo on init tb (Suc i) fs
                          \<lparr>lastOut = out, vkbps = vk, attempts = []\<rparr> of
                     (e, r) \<Rightarrow>
                       (e, r\<lparr>attempts :=
                               \<lparr>index = i, outputLocation = out, videoKbps = vk, resultBytes = Some sz\<rparr>
                                 # attempts r\<rparr>))))"
  apply (simp only: passes_loop.simps Let_def pass_out_def pass_kbps_def)
  apply (subst loop_acc)
  apply (simp split: option.splits prod.splits)
  done

text \<open>The three ways one pass of the loop can end.\<close>

lemma loop_Cons_cases:
  assumes "passes_loop w cfg ip fo on init tb i (f # fs)
             \<lparr>lastOut = lo, vkbps = v, attempts = []\<rparr> = (e, r)"
  obtains
    (failed) "e \<noteq> None" "lastOut r = lo"
      "attempts r = [\<lparr>index = i, outputLocation = pass_out w fo on i,
                      videoKbps = pass_kbps init v i f, resultBytes = None\<rparr>]"
      "\<not> encode w ip (pass_out w fo on i) (pass_kbps init v i f) (AUDIO_KBPS cfg) (MAX_WIDTH cfg)
       \<or> stat_size w (pass_out w fo on i) = None"
  | (fitted) sz where "e = None" "sz \<le> tb" "lastOut r = pass_out w fo on i"
      "stat_size w (pass_out w fo on i) = Some sz"
      "attempts r = [\<lparr>index = i, outputLocation = pass_out w fo on i,
                      videoKbps = pass_kbps init v i f, resultBytes = Some sz\<rparr>]"
  | (continued) sz r' where "tb < sz"
      "encode w ip (pass_out w fo on i) (pass_kbps init v i f) (AUDIO_KBPS cfg) (MAX_WIDTH cfg)"
      "stat_size w (pass_out w fo on i) = Some sz"
      "passes_loop w cfg ip fo on init tb (Suc i) fs
         \<lparr>lastOut = pass_out w fo on i, vkbps = pass_kbps init v i f, attempts = []\<rparr> = (e, r')"
      "lastOut r = lastOut r'"
      "attempts r = \<lparr>index = i, outputLocation = pass_out w fo on i,
                      videoKbps = pass_kbps init v i f, resultBytes = Some sz\<rparr> # attempts r'"
  using assms unfolding loop_Cons Let_def
  by (auto split: if_splits option.splits prod.splits)

lemma loop_length:
  "passes_loop w cfg ip fo on init tb i fs \<lparr>lastOut = lo, vkbps = v, attempts = []\<rparr> = (e, r)
   \<Longrightarrow> length (attempts r) \<le> length fs"
proof (induction fs arbitrary: i lo v e r)
  case Nil
  then show ?case by auto
next
  case (Cons f fs)
  from Cons.prems show ?case
  proof (cases rule: loop_Cons_cases)
    case failed
    then show ?thesis by simp
  next
    case (fitted sz)
    then show ?thesis by simp
  next
    case (continued sz r')
    from Cons.IH [OF continued(4)] continued(6) show ?thesis by simp
  qed
qed

lemma loop_nonempty:
  "passes_loop w cfg ip fo on init tb i (f # fs) \<lparr>lastOut = lo, vkbps = v, attempts = []\<rparr> = (e, r)
   \<Longrightarrow> attempts r \<noteq> []"
  by (erule loop_Cons_cases) simp_all

lemma loop_before_last:
  "passes_loop w cfg ip fo on init tb i fs \<lparr>lastOut = lo, vkbps = v, attempts = []\<rparr> = (e, r)
   \<Longrightarrow> Suc k < length (attempts r) \<Longrightarrow> oversized tb (attempts r ! k)"
proof (induction fs arbitrary: i lo v e r k)
  case Nil
  then show ?case by auto
next
  case (Cons f fs)
  from Cons.prems(1) show ?case
  proof (cases rule: loop_Cons_cases)
    case failed
    with Cons.prems(2) show ?thesis by simp
  next
    case (fitted sz)
    with Cons.prems(2) show ?thesis by simp
  next
    case (continued sz r')
    show ?thesis
    proof (cases k)
      case 0
      with continued show ?thesis by (simp add: oversized_def)
    next
      case (Suc k')
      with Cons.prems(2) continued(6) have "Suc k' < length (attempts r')" by simp
      from Cons.IH [OF continued(4) this] continued(6) Suc show ?thesis by simp
    qed
  qed
qed

lemma loop_ok:
  "passes_loop w cfg ip fo on init tb i fs \<lparr>lastOut = lo, vkbps = v, attempts = []\<rparr> = (None, r)
   \<Longrightarrow> (\<forall>a \<in> set (attempts r). resultBytes a \<noteq> None) \<and>
       (attempts r \<noteq> [] \<longrightarrow> lastOut r = outputLocation (last (attempts r))) \<and>
       (length (attempts r) < length fs \<longrightarrow> attempts r \<noteq> [] \<and> fits tb (last (attempts r)))"
proof (induction fs arbitrary: i lo v r)
  case Nil
  then show ?case by auto
next
  case (Cons f fs)
  from Cons.prems show ?case
  proof (cases rule: loop_Cons_cases)
    case failed
    then show ?thesis by simp
  next
    case (fitted sz)
    then show ?thesis by (simp add: fits_def)
  next
    case (continued sz r')
    have ne: "fs \<noteq> [] \<Longrightarrow> attempts r' \<noteq> []"
      using continued(4) loop_nonempty by (cases fs) blast+
    have e: "fs = [] \<Longrightarrow> attempts r' = [] \<and> lastOut r' = pass_out w fo on i"
      using continued(4) by auto
    from Cons.IH [OF continued(4)] continued(5,6) ne e show ?thesis
      by (cases "fs = []") auto
  qed
qed

lemma loop_error:
  "passes_loop w cfg ip fo on init tb i fs \<lparr>lastOut = lo, vkbps = v, attempts = []\<rparr> = (Some x, r)
   \<Longrightarrow> attempts r \<noteq> [] \<and> resultBytes (last (attempts r)) = None"
proof (induction fs arbitrary: i lo v r)
  case Nil
  then show ?case by auto
next
  case (Cons f fs)
  from Cons.prems show ?case
  proof (cases rule: loop_Cons_cases)
    case failed
    then show ?thesis by simp
  next
    case (fitted sz)
    then show ?thesis by simp
  next
    case (continued sz r')
    from Cons.IH [OF continued(4)] continued(6) show ?thesis by simp
  qed
qed

lemma pass_kbps_pos: "0 < j \<Longrightarrow> pass_kbps init v j f = pass_kbps init v' j f"
  by (simp add: pass_kbps_def)

lemma loop_params:
  "passes_loop w cfg ip fo on init tb i fs \<lparr>lastOut = lo, vkbps = v, attempts = []\<rparr> = (e, r)
   \<Longrightarrow> k < length (attempts r)
   \<Longrightarrow> videoKbps (attempts r ! k) = pass_kbps init v (i + k) (fs ! k) \<and>
       outputLocation (attempts r ! k) = pass_out w fo on (i + k) \<and>
       index (attempts r ! k) = i + k"
proof (induction fs arbitrary: i lo v e r k)
  case Nil
  then show ?case by auto
next
  case (Cons f fs)
  from Cons.prems(1) show ?case
  proof (cases rule: loop_Cons_cases)
    case failed
    with Cons.prems(2) show ?thesis by simp
  next
    case (fitted sz)
    with Cons.prems(2) show ?thesis by simp
  next
    case (continued sz r')
    show ?thesis
    proof (cases k)
      case 0
      with continued show ?thesis by simp
    next
      case (Suc k')
      with Cons.prems(2) continued(6) have "k' < length (attempts r')" by simp
      from Cons.IH [OF continued(4) this] continued(6) Suc show ?thesis
        by (simp add: pass_kbps_pos [of "Suc (i + k')" init "pass_kbps init v i f" _ v])
    qed
  qed
qed

lemma loop_order:
  assumes "passes_loop w cfg ip fo on init tb i fs \<lparr>lastOut = lo, vkbps = v, attempts = []\<rparr> = (e, r)"
  shows "map index (attempts r) = [i..<i + length (attempts r)]"
  by (rule nth_equalityI) (simp_all add: loop_params [OF assms])


section \<open>The handlers, case by case\<close>

text \<open>The outcomes of the queued handler, one case for each way through it.\<close>

lemma upload_queued_cases:
  obtains
    (no_file) "file_field req = None"
      "upload_queued cfg w req =
         \<lparr>reply = Some no_file_response, cleanup = [], unlinked = [], invoked = []\<rparr>"
  | (no_probe) f where "file_field req = Some f" "probe w (Upload (file_path f)) = None"
      "upload_queued cfg w req =
         \<lparr>reply = Some (failed None None failure_message),
          cleanup = [Upload (file_path f)], unlinked = [], invoked = []\<rparr>"
  | (looped) f meta e r where "file_field req = Some f"
      "probe w (Upload (file_path f)) = Some meta"
      "passes_loop w cfg (Upload (file_path f))
         (TmpOut (now w 0) First (outName (originalname f))) (outName (originalname f))
         (initialVideoKbps_queued (duration meta) (targetBytes cfg) (AUDIO_KBPS cfg))
         (targetBytes cfg) 0 factors
         \<lparr>lastOut = TmpOut (now w 0) First (outName (originalname f)),
          vkbps = initialVideoKbps_queued (duration meta) (targetBytes cfg) (AUDIO_KBPS cfg),
          attempts = []\<rparr> = (e, r)"
      "upload_queued cfg w req =
         (if e \<noteq> None
          then \<lparr>reply = Some (failed None None failure_message),
                cleanup = [Upload (file_path f)], unlinked = [], invoked = attempts r\<rparr>
          else if stream_ok w (lastOut r)
          then \<lparr>reply = Some (streamDownload (lastOut r) (outName (originalname f))),
                cleanup = [Upload (file_path f), lastOut r], unlinked = [],
                invoked = attempts r\<rparr>
          else \<lparr>reply = Some (failed (Some ''video/mp4'')
                          (contentDisposition (streamDownload (lastOut r) (outName (originalname f))))
                          failure_message),
                cleanup = [Upload (file_path f)], unlinked = [], invoked = attempts r\<rparr>)"
proof (cases "file_field req")
  case None
  then show ?thesis
    by (intro no_file) (simp_all add: upload_queued_def)
next
  case (Some f)
  show ?thesis
  proof (cases "probe w (Upload (file_path f))")
    case None
    with Some show ?thesis
      by (intro no_probe [of f]) (simp_all add: upload_queued_def job_queued_def cleanupLater_def)
  next
    case (Some meta)
    obtain e r where l: "passes_loop w cfg (Upload (file_path f))
         (TmpOut (now w 0) First (outName (originalname f))) (outName (originalname f))
         (initialVideoKbps_queued (duration meta) (targetBytes cfg) (AUDIO_KBPS cfg))
         (targetBytes cfg) 0 factors
         \<lparr>lastOut = TmpOut (now w 0) First (outName (originalname f)),
          vkbps = initialVideoKbps_queued (duration meta) (targetBytes cfg) (AUDIO_KBPS cfg),
          attempts = []\<rparr> = (e, r)"
      by (cases "passes_loop w cfg (Upload (file_path f))
         (TmpOut (now w 0) First (outName (originalname f))) (outName (originalname f))
         (initialVideoKbps_queued (duration meta) (targetBytes cfg) (AUDIO_KBPS cfg))
         (targetBytes cfg) 0 factors
         \<lparr>lastOut = TmpOut (now w 0) First (outName (originalname f)),
          vkbps = initialVideoKbps_queued (duration meta) (targetBytes cfg) (AUDIO_KBPS cfg),
          attempts = []\<rparr>") blast
    from \<open>file_field req = Some f\<close> Some l show ?thesis
      by (intro looped [of f meta e r])
        (auto simp: upload_queued_def job_queued_def cleanupLater_def Let_def streamDownload_def)
  qed
qed

text \<open>The outcomes of the simple handler, one case for each way through it.\<close>

lemma upload_simple_cases:
  obtains
    (no_file) "file_field req = None"
      "upload_simple cfg w req =
         \<lparr>reply = Some no_file_response, cleanup = [], unlinked = [], invoked = []\<rparr>"
  | (no_probe) f where "file_field req = Some f" "probe w (Upload (file_path f)) = None"
      "upload_simple cfg w req =
         \<lparr>reply = Some (failed None None failure_message),
          cleanup = [Upload (file_path f), TmpOut (now w 0) First (outName (originalname f))],
          unlinked = [], invoked = []\<rparr>"
  | (looped) f meta e r where "file_field req = Some f"
      "probe w (Upload (file_path f)) = Some meta"
      "passes_loop w cfg (Upload (file_path f))
         (TmpOut (now w 0) First (outName (originalname f))) (outName (originalname f))
         (initialVideoKbps_simple (duration meta) (targetBytes cfg) (AUDIO_KBPS cfg))
         (targetBytes cfg) 0 passes
         \<lparr>lastOut = TmpOut (now w 0) First (outName (originalname f)),
          vkbps = initialVideoKbps_simple (duration meta) (targetBytes cfg) (AUDIO_KBPS cfg),
          attempts = []\<rparr> = (e, r)"
      "upload_simple cfg w req =
         (if e \<noteq> None
          then \<lparr>reply = Some (failed None None failure_message),
                cleanup = [Upload (file_path f), TmpOut (now w 0) First (outName (originalname f))],
                unlinked = [], invoked = attempts r\<rparr>
          else if stream_ok w (lastOut r)
          then \<lparr>reply = Some (streamDownload (lastOut r) (outName (originalname f))),
                cleanup =
                  (if TmpOut (now w 0) First (outName (originalname f)) \<noteq> lastOut r
                   then [Upload (file_path f), TmpOut (now w 0) First (outName (originalname f)),
                         lastOut r]
                   else [Upload (file_path f), lastOut r]),
                unlinked = [], invoked = attempts r\<rparr>
          else \<lparr>reply = Some (failed (Some ''video/mp4'')
                          (contentDisposition (streamDownload (lastOut r) (outName (originalname f))))
                          failure_message),
                cleanup = [Upload (file_path f), TmpOut (now w 0) First (outName (originalname f))],
                unlinked = [], invoked = attempts r\<rparr>)"
proof (cases "file_field req")
  case None
  then show ?thesis
    by (intro no_file) (simp_all add: upload_simple_def)
next
  case (Some f)
  show ?thesis
  proof (cases "probe w (Upload (file_path f))")
    case None
    with Some show ?thesis
      by (intro no_probe [of f]) (simp_all add: upload_simple_def cleanupLater_def)
  next
    case (Some meta)
    obtain e r where l: "passes_loop w cfg (Upload (file_path f))
         (TmpOut (now w 0) First (outName (originalname f))) (outName (originalname f))
         (initialVideoKbps_simple (duration meta) (targetBytes cfg) (AUDIO_KBPS cfg))
         (targetBytes cfg) 0 passes
         \<lparr>lastOut = TmpOut (now w 0) First (outName (originalname f)),
          vkbps = initialVideoKbps_simple (duration meta) (targetBytes cfg) (AUDIO_KBPS cfg),
          attempts = []\<rparr> = (e, r)"
      by (cases "passes_loop w cfg (Upload (file_path f))
         (TmpOut (now w 0) First (outName (originalname f))) (outName (originalname f))
         (initialVideoKbps_simple (duration meta) (targetBytes cfg) (AUDIO_KBPS cfg))
         (targetBytes cfg) 0 passes
         \<lparr>lastOut = TmpOut (now w 0) First (outName (originalname f)),
          vkbps = initialVideoKbps_simple (duration meta) (targetBytes cfg) (AUDIO_KBPS cfg),
          attempts = []\<rparr>") blast
    from \<open>file_field req = Some f\<close> Some l show ?thesis
      by (intro looped [of f meta e r])
        (auto simp: upload_simple_def cleanupLater_def Let_def streamDownload_def)
  qed
qed

section \<open>Schedule order and the first output within the budget\<close>

lemma fits_not_oversized: "fits tb a \<Longrightarrow> \<not> oversized tb a"
  by (simp add: fits_def oversized_def split: option.splits)

text \<open>What the attempts of a loop started at index 0 look like.\<close>

lemma loop_shape:
  assumes l: "passes_loop w cfg ip fo on init tb 0 fs \<lparr>lastOut = lo, vkbps = v, attempts = []\<rparr> = (e, r)"
  shows "map index (attempts r) = [0..<length (attempts r)] \<and>
         length (attempts r) \<le> length fs \<and>
         (\<forall>k. Suc k < length (attempts r) \<longrightarrow> oversized tb (attempts r ! k)) \<and>
         (\<forall>k<length (attempts r). fits tb (attempts r ! k) \<longrightarrow> Suc k = length (attempts r)) \<and>
         (e = None \<and> length (attempts r) < length fs \<longrightarrow>
            attempts r \<noteq> [] \<and> fits tb (last (attempts r)))"
proof -
  have a: "map index (attempts r) = [0..<length (attempts r)]"
    using loop_order [OF l] by simp
  have b: "length (attempts r) \<le> length fs"
    by (rule loop_length [OF l])
  have c: "\<forall>k. Suc k < length (attempts r) \<longrightarrow> oversized tb (attempts r ! k)"
    using loop_before_last [OF l] by blast
  have d: "\<forall>k<length (attempts r). fits tb (attempts r ! k) \<longrightarrow> Suc k = length (attempts r)"
  proof (intro allI impI)
    fix k assume k: "k < length (attempts r)" and f: "fits tb (attempts r ! k)"
    from f have "\<not> oversized tb (attempts r ! k)" by (rule fits_not_oversized)
    with c have "\<not> Suc k < length (attempts r)" by blast
    with k show "Suc k = length (attempts r)" by simp
  qed
  have e: "e = None \<and> length (attempts r) < length fs \<longrightarrow>
            attempts r \<noteq> [] \<and> fits tb (last (attempts r))"
    using l loop_ok [of w cfg ip fo on init tb 0 fs lo v r] by blast
  from a b c d e show ?thesis by blast
qed

lemma queued_shape:
  "map index (invoked (upload_queued cfg w req)) = [0..<length (invoked (upload_queued cfg w req))] \<and>
   length (invoked (upload_queued cfg w req)) \<le> length factors \<and>
   (\<forall>k. Suc k < length (invoked (upload_queued cfg w req)) \<longrightarrow>
        oversized (targetBytes cfg) (invoked (upload_queued cfg w req) ! k)) \<and>
   (\<forall>k<length (invoked (upload_queued cfg w req)).
        fits (targetBytes cfg) (invoked (upload_queued cfg w req) ! k) \<longrightarrow>
        Suc k = length (invoked (upload_queued cfg w req))) \<and>
   (\<forall>x. reply (upload_queued cfg w req) = Some x \<and> status x = 200 \<and>
        length (invoked (upload_queued cfg w req)) < length factors \<longrightarrow>
        invoked (upload_queued cfg w req) \<noteq> [] \<and>
        fits (targetBytes cfg) (last (invoked (upload_queued cfg w req))))"
proof (cases rule: upload_queued_cases [of req cfg w])
  case no_file
  then show ?thesis by (simp add: no_file_response_def)
next
  case (no_probe f)
  then show ?thesis by (simp add: failed_def)
next
  case (looped f meta e r)
  have i: "invoked (upload_queued cfg w req) = attempts r"
    using looped(4) by simp
  have s: "\<forall>x. reply (upload_queued cfg w req) = Some x \<and> status x = 200 \<longrightarrow> e = None"
    using looped(4) by (auto simp: failed_def split: if_splits)
  from loop_shape [OF looped(3)] s show ?thesis
    unfolding i by blast
qed

lemma simple_shape:
  "map index (invoked (upload_simple cfg w req)) = [0..<length (invoked (upload_simple cfg w req))] \<and>
   length (invoked (upload_simple cfg w req)) \<le> length passes \<and>
   (\<forall>k. Suc k < length (invoked (upload_simple cfg w req)) \<longrightarrow>
        oversized (targetBytes cfg) (invoked (upload_simple cfg w req) ! k)) \<and>
   (\<forall>k<length (invoked (upload_simple cfg w req)).
        fits (targetBytes cfg) (invoked (upload_simple cfg w req) ! k) \<longrightarrow>
        Suc k = length (invoked (upload_simple cfg w req))) \<and>
   (\<forall>x. reply (upload_simple cfg w req) = Some x \<and> status x = 200 \<and>
        length (invoked (upload_simple cfg w req)) < length passes \<longrightarrow>
        invoked (upload_simple cfg w req) \<noteq> [] \<and>
        fits (targetBytes cfg) (last (invoked (upload_simple cfg w req))))"
proof (cases rule: upload_simple_cases [of req cfg w])
  case no_file
  then show ?thesis by (simp add: no_file_response_def)
next
  case (no_probe f)
  then show ?thesis by (simp add: failed_def)
next
  case (looped f meta e r)
  have i: "invoked (upload_simple cfg w req) = attempts r"
    using looped(4) by simp
  have s: "\<forall>x. reply (upload_simple cfg w req) = Some x \<and> status x = 200 \<longrightarrow> e = None"
    using looped(4) by (auto simp: failed_def split: if_splits)
  from loop_shape [OF looped(3)] s show ?thesis
    unfolding i by blast
qed

text \<open>The scenario of the specification: the first output is oversized, the second fits.\<close>

lemma loop_stops_at_second:
  assumes "\<forall>vk. encode w ip fo vk (AUDIO_KBPS cfg) (MAX_WIDTH cfg)"
    and "stat_size w fo = Some s0" and "tb < s0"
    and "\<forall>vk. encode w ip (TmpOut (now w 1) (Pass 1) on) vk (AUDIO_KBPS cfg) (MAX_WIDTH cfg)"
    and "stat_size w (TmpOut (now w 1) (Pass 1) on) = Some s1" and "s1 \<le> tb"
  shows "passes_loop w cfg ip fo on init tb 0 (f0 # f1 # fs) \<lparr>lastOut = lo, vkbps = v, attempts = []\<rparr> =
          (None,
           \<lparr>lastOut = TmpOut (now w 1) (Pass 1) on, vkbps = js_max (Num 48) (js_floor (js_mul init f1)),
            attempts =
              [\<lparr>index = 0, outputLocation = fo, videoKbps = v, resultBytes = Some s0\<rparr>,
               \<lparr>index = 1, outputLocation = TmpOut (now w 1) (Pass 1) on,
                videoKbps = js_max (Num 48) (js_floor (js_mul init f1)), resultBytes = Some s1\<rparr>]\<rparr>)"
  using assms by (simp add: loop_Cons Let_def pass_out_def pass_kbps_def)

lemma targetBytes_default:
  assumes "TARGET_MB cfg = 98 / 10"
  shows "targetBytes cfg = 10276044"
proof -
  have "targetBytes cfg = \<lfloor>(98 / 10 :: real) * 1024 * 1024\<rfloor>"
    unfolding targetBytes_def assms ..
  also have "\<dots> = 10276044" by simp
  finally show ?thesis .
qed

lemma queued_stops_at_second:
  assumes f: "file_field req = Some f"
    and p: "probe w (Upload (file_path f)) \<noteq> None"
    and t: "TARGET_MB cfg = 98 / 10"
    and e0: "\<forall>vk. encode w (Upload (file_path f)) (TmpOut (now w 0) First (outName (originalname f))) vk
               (AUDIO_KBPS cfg) (MAX_WIDTH cfg)"
    and s0: "stat_size w (TmpOut (now w 0) First (outName (originalname f))) = Some (12 * MB)"
    and e1: "\<forall>vk. encode w (Upload (file_path f)) (TmpOut (now w 1) (Pass 1) (outName (originalname f))) vk
               (AUDIO_KBPS cfg) (MAX_WIDTH cfg)"
    and s1: "stat_size w (TmpOut (now w 1) (Pass 1) (outName (originalname f))) = Some (9 * MB)"
  shows "map index (invoked (upload_queued cfg w req)) = [0, 1]"
proof -
  have tb: "targetBytes cfg = 10276044" using t by (rule targetBytes_default)
  have big: "targetBytes cfg < 12 * MB" and small: "9 * MB \<le> targetBytes cfg"
    unfolding tb by (simp_all add: MB_def)
  from p obtain meta where m: "probe w (Upload (file_path f)) = Some meta" by blast
  show ?thesis
    using loop_stops_at_second [OF e0 s0 big e1 s1 small] f m
    by (simp add: upload_queued_def job_queued_def Let_def factors_def)
qed


section \<open>Bitrates from pass to pass\<close>

lemma at_most_refl: "at_most a a"
  by (cases a) (simp_all add: at_most_def)

lemma at_most_js_le: "at_most a b \<Longrightarrow> b \<noteq> NaN \<Longrightarrow> js_le a b"
  by (simp add: at_most_def)

lemma sorted_desc_last:
  "sorted_wrt (\<lambda>x y. at_most y x) xs \<Longrightarrow> x \<in> set xs \<Longrightarrow> at_most (last xs) x"
  by (induction xs) (auto simp: at_most_refl split: if_splits)

text \<open>
  A list that never increases and starts with a number consists of numbers, each at most
  the one before it in the order of JavaScript.
\<close>

lemma sorted_numbers:
  assumes s: "sorted_wrt (\<lambda>x y. at_most y x) xs" and n: "xs \<noteq> []" "hd xs \<noteq> NaN"
  shows "sorted_wrt (\<lambda>x y. js_le y x) xs \<and> (\<forall>y \<in> set xs. y \<noteq> NaN)"
proof -
  obtain h t where xs: "xs = h # t" using n(1) by (cases xs) auto
  have a: "y \<noteq> NaN" if "y \<in> set xs" for y
  proof (cases "y = h")
    case True
    with n(2) xs show ?thesis by simp
  next
    case False
    with that xs s have "at_most y h" by auto
    with n(2) xs have "js_le y h" by (simp add: at_most_js_le)
    then show ?thesis using js_le_not_NaN by blast
  qed
  have "sorted_wrt (\<lambda>x y. js_le y x) xs"
    by (rule sorted_wrt_mono_rel [OF _ s]) (simp add: at_most_js_le a)
  with a show ?thesis by blast
qed

text \<open>The factor lists: the doubles they hold descend from 1.\<close>

lemma factors_values:
  "factors =
     map Num [1, 7385903388887613 / 9007199254740992, 6124895493223875 / 9007199254740992,
              1261007895663739 / 2251799813685248]"
  unfolding factors_def literals by simp

lemma passes_values:
  "passes = map Num [1, 7656119366529843 / 9007199254740992, 3242591731706757 / 4503599627370496]"
  unfolding passes_def literals by simp

lemma factors_desc:
  "\<exists>rs. factors = map Num rs \<and> sorted_wrt (\<lambda>x y. y \<le> x) rs \<and> (\<forall>x \<in> set rs. 0 < x \<and> x \<le> 1)"
  unfolding factors_values by (intro exI conjI, rule refl) simp_all

lemma passes_desc:
  "\<exists>rs. passes = map Num rs \<and> sorted_wrt (\<lambda>x y. y \<le> x) rs \<and> (\<forall>x \<in> set rs. 0 < x \<and> x \<le> 1)"
  unfolding passes_values by (intro exI conjI, rule refl) simp_all

text \<open>
  Scaling by a factor between 0 and 1 does not raise a bitrate, and a smaller factor gives
  no higher a bitrate: the product is rounded, and rounding is monotone and leaves the
  initial bitrate, itself a double, as it is.
\<close>

lemma scaled_at_most:
  assumes init: "init = NaN \<or> init = PosInf \<or> (\<exists>v. init = Num v \<and> 48 \<le> v \<and> round64 v = Num v)"
    and f: "0 < r" "r \<le> 1"
  shows "at_most (js_max (Num 48) (js_floor (js_mul init (Num r)))) init"
proof -
  consider "init = NaN" | "init = PosInf"
    | v where "init = Num v" "48 \<le> v" "round64 v = Num v"
    using init by blast
  then show ?thesis
  proof cases
    case 1
    then show ?thesis by (simp add: at_most_def)
  next
    case 2
    with f show ?thesis by (simp add: at_most_def)
  next
    case 3
    have "0 < v * r" "v * r \<le> v" using 3(2) f by (simp_all add: mult_left_le)
    from round64_mono [OF this 3(3)] obtain s
      where s: "round64 (v * r) = Num s" "0 \<le> s" "s \<le> v" by blast
    have "real_of_int \<lfloor>s\<rfloor> \<le> v" using s(3) by linarith
    with 3 s show ?thesis by (simp add: at_most_def)
  qed
qed

lemma scaled_mono:
  assumes init: "init = NaN \<or> init = PosInf \<or> (\<exists>v. init = Num v \<and> 48 \<le> v \<and> round64 v = Num v)"
    and f: "0 < r'" "r' \<le> r" "r \<le> 1"
  shows "at_most (js_max (Num 48) (js_floor (js_mul init (Num r'))))
           (js_max (Num 48) (js_floor (js_mul init (Num r))))"
proof -
  consider "init = NaN" | "init = PosInf"
    | v where "init = Num v" "48 \<le> v" "round64 v = Num v"
    using init by blast
  then show ?thesis
  proof cases
    case 1
    then show ?thesis by (simp add: at_most_def)
  next
    case 2
    with f show ?thesis by (simp add: at_most_def)
  next
    case 3
    from f have r: "0 < r" by simp
    have "0 < v * r" "v * r \<le> v" using 3(2) r f(3) by (simp_all add: mult_left_le)
    from round64_mono [OF this 3(3)] obtain s
      where s: "round64 (v * r) = Num s" "0 \<le> s" "s \<le> v" by blast
    have "0 < v * r'" "v * r' \<le> v * r" using 3(2) f by simp_all
    from round64_mono [OF this s(1)] obtain s'
      where s': "round64 (v * r') = Num s'" "0 \<le> s'" "s' \<le> s" by blast
    from s'(3) have "\<lfloor>s'\<rfloor> \<le> \<lfloor>s\<rfloor>" by (rule floor_mono)
    then have "real_of_int \<lfloor>s'\<rfloor> \<le> real_of_int \<lfloor>s\<rfloor>" by simp
    with 3 s s' show ?thesis by (simp add: at_most_def)
  qed
qed

text \<open>The initial bitrate of a plan is \<^verbatim>\<open>NaN\<close>, infinite, or a double of at least 48.\<close>

lemma js_sub_Num_fixed: "js_sub a (Num b) = Num v \<Longrightarrow> round64 v = Num v"
  by (cases a) (auto intro: round64_idem)

lemma plan_value:
  assumes c: "48 \<le> c" "c \<le> 2 ^ 53"
  shows "js_max (Num (of_int c)) (js_sub t (Num a)) = NaN \<or>
         js_max (Num (of_int c)) (js_sub t (Num a)) = PosInf \<or>
         (\<exists>v. js_max (Num (of_int c)) (js_sub t (Num a)) = Num v \<and> 48 \<le> v \<and> round64 v = Num v)"
proof (cases "js_sub t (Num a)")
  case (Num v)
  from Num have fx: "round64 v = Num v" by (rule js_sub_Num_fixed)
  from c have fc: "round64 (of_int c) = Num (of_int c)" by (intro round64_of_int) simp_all
  from c have "48 \<le> real_of_int c" by simp
  with Num fx fc show ?thesis by (cases "real_of_int c \<le> v") (simp_all add: max_def)
next
  case PosInf
  then show ?thesis by simp
next
  case NegInf
  from c have fc: "round64 (of_int c) = Num (of_int c)" by (intro round64_of_int) simp_all
  from c have "48 \<le> real_of_int c" by simp
  with NegInf fc show ?thesis by (simp add: js_max_def)
next
  case NaN
  then show ?thesis by simp
qed

lemma initial_value:
  "initialVideoKbps_queued d tb a = NaN \<or> initialVideoKbps_queued d tb a = PosInf \<or>
   (\<exists>v. initialVideoKbps_queued d tb a = Num v \<and> 48 \<le> v \<and> round64 v = Num v)"
  "initialVideoKbps_simple d tb a = NaN \<or> initialVideoKbps_simple d tb a = PosInf \<or>
   (\<exists>v. initialVideoKbps_simple d tb a = Num v \<and> 48 \<le> v \<and> round64 v = Num v)"
  unfolding initialVideoKbps_queued_def initialVideoKbps_simple_def
  using plan_value [of 56 "totalKbps_queued d tb" "of_int a"]
    plan_value [of 64 "totalKbps_simple d tb" "of_int a"]
  by simp_all

text \<open>A loop entered with such a bitrate and factors that descend from at most 1.\<close>

lemma loop_bitrates:
  assumes l: "passes_loop w cfg ip fo on init tb 0 fs \<lparr>lastOut = lo, vkbps = init, attempts = []\<rparr> = (e, r)"
    and i: "init = NaN \<or> init = PosInf \<or> (\<exists>v. init = Num v \<and> 48 \<le> v \<and> round64 v = Num v)"
    and d: "\<exists>rs. fs = map Num rs \<and> sorted_wrt (\<lambda>x y. y \<le> x) rs \<and> (\<forall>x \<in> set rs. 0 < x \<and> x \<le> 1)"
  shows "sorted_wrt (\<lambda>earlier later. at_most later earlier) (map videoKbps (attempts r)) \<and>
         (\<forall>a \<in> set (attempts r).
            videoKbps a =
              (if index a = 0 then init
               else js_max (Num 48) (js_floor (js_mul init (fs ! index a)))) \<and>
            index a < length fs) \<and>
         (\<forall>a \<in> set (attempts r).
            attempts r \<noteq> [] \<and> at_most (videoKbps (last (attempts r))) (videoKbps a))"
proof -
  from d obtain rs where rs: "fs = map Num rs" "sorted_wrt (\<lambda>x y. y \<le> x) rs"
    "\<forall>x \<in> set rs. 0 < x \<and> x \<le> 1" by blast
  have len: "length (attempts r) \<le> length rs"
    using loop_length [OF l] rs(1) by simp
  have v: "videoKbps (attempts r ! k) =
      (if k = 0 then init else js_max (Num 48) (js_floor (js_mul init (Num (rs ! k)))))"
    if "k < length (attempts r)" for k
    using loop_params [OF l that] that len rs(1) by (simp add: pass_kbps_def)
  have s: "sorted_wrt (\<lambda>earlier later. at_most later earlier) (map videoKbps (attempts r))"
    unfolding sorted_wrt_iff_nth_less
  proof (intro allI impI)
    fix j k
    assume jk: "j < k" and k: "k < length (map videoKbps (attempts r))"
    then have kl: "k < length (attempts r)" "j < length (attempts r)" "k < length rs"
      "j < length rs" using len by simp_all
    from kl(3) rs(3) have rk: "0 < rs ! k" "rs ! k \<le> 1" by simp_all
    from kl(4) rs(3) have rj: "rs ! j \<le> 1" by simp
    from rs(2) [unfolded sorted_wrt_iff_nth_less] jk kl(3) have le: "rs ! k \<le> rs ! j"
      by blast
    show "at_most (map videoKbps (attempts r) ! k) (map videoKbps (attempts r) ! j)"
    proof (cases "j = 0")
      case True
      with jk kl v [of k] v [of j] scaled_at_most [OF i rk] show ?thesis by simp
    next
      case False
      with jk kl v [of k] v [of j] scaled_mono [OF i rk(1) le rj] show ?thesis by simp
    qed
  qed
  have p: "videoKbps a =
             (if index a = 0 then init else js_max (Num 48) (js_floor (js_mul init (fs ! index a))))
           \<and> index a < length fs"
    if "a \<in> set (attempts r)" for a
  proof -
    from that obtain k where k: "k < length (attempts r)" "a = attempts r ! k"
      by (auto simp: in_set_conv_nth)
    from loop_params [OF l k(1)] loop_length [OF l] k show ?thesis
      by (simp add: pass_kbps_def)
  qed
  have m: "attempts r \<noteq> [] \<and> at_most (videoKbps (last (attempts r))) (videoKbps a)"
    if "a \<in> set (attempts r)" for a
  proof -
    from that have ne: "attempts r \<noteq> []" by auto
    from that have "videoKbps a \<in> set (map videoKbps (attempts r))" by simp
    from sorted_desc_last [OF s this] ne show ?thesis by (simp add: last_map)
  qed
  from s p m show ?thesis by blast
qed

lemma queued_bitrates:
  "sorted_wrt (\<lambda>earlier later. at_most later earlier)
     (map videoKbps (invoked (upload_queued cfg w req))) \<and>
   (\<forall>f meta. file_field req = Some f \<and> probe w (Upload (file_path f)) = Some meta \<longrightarrow>
      (\<forall>a \<in> set (invoked (upload_queued cfg w req)).
         videoKbps a =
           (if index a = 0
            then initialVideoKbps_queued (duration meta) (targetBytes cfg) (AUDIO_KBPS cfg)
            else js_max (Num 48)
                   (js_floor
                      (js_mul (initialVideoKbps_queued (duration meta) (targetBytes cfg) (AUDIO_KBPS cfg))
                         (factors ! index a)))) \<and>
         index a < length factors)) \<and>
   (\<forall>a \<in> set (invoked (upload_queued cfg w req)).
      at_most (videoKbps (last (invoked (upload_queued cfg w req)))) (videoKbps a))"
proof (cases rule: upload_queued_cases [of req cfg w])
  case no_file
  then show ?thesis by simp
next
  case (no_probe f)
  then show ?thesis by simp
next
  case (looped f meta e r)
  have i: "invoked (upload_queued cfg w req) = attempts r"
    using looped(4) by simp
  from loop_bitrates [OF looped(3) initial_value(1) factors_desc] looped(1,2) show ?thesis
    unfolding i by auto
qed

lemma simple_bitrates:
  "sorted_wrt (\<lambda>earlier later. at_most later earlier)
     (map videoKbps (invoked (upload_simple cfg w req))) \<and>
   (\<forall>f meta. file_field req = Some f \<and> probe w (Upload (file_path f)) = Some meta \<longrightarrow>
      (\<forall>a \<in> set (invoked (upload_simple cfg w req)).
         videoKbps a =
           (if index a = 0
            then initialVideoKbps_simple (duration meta) (targetBytes cfg) (AUDIO_KBPS cfg)
            else js_max (Num 48)
                   (js_floor
                      (js_mul (initialVideoKbps_simple (duration meta) (targetBytes cfg) (AUDIO_KBPS cfg))
                         (passes ! index a)))) \<and>
         index a < length passes)) \<and>
   (\<forall>a \<in> set (invoked (upload_simple cfg w req)).
      at_most (videoKbps (last (invoked (upload_simple cfg w req)))) (videoKbps a))"
proof (cases rule: upload_simple_cases [of req cfg w])
  case no_file
  then show ?thesis by simp
next
  case (no_probe f)
  then show ?thesis by simp
next
  case (looped f meta e r)
  have i: "invoked (upload_simple cfg w req) = attempts r"
    using looped(4) by simp
  from loop_bitrates [OF looped(3) initial_value(2) passes_desc] looped(1,2) show ?thesis
    unfolding i by auto
qed

lemma retry_kbps_le:
  "at_most (js_max (Num 48) (js_floor (js_mul (initialVideoKbps_simple d tb a) (round64 (85 / 100)))))
     (initialVideoKbps_simple d tb a)"
  unfolding literals by (rule scaled_at_most [OF initial_value(2)]) simp_all

lemma retry_bitrates:
  "sorted_wrt (\<lambda>earlier later. at_most later earlier)
     (map videoKbps (invoked (upload_retry cfg w req))) \<and>
   (\<forall>f meta d. file_field req = Some f \<and> probe w (Upload (file_path f)) = Some meta \<and>
        duration_retry meta = Inr d \<longrightarrow>
      (\<forall>a \<in> set (invoked (upload_retry cfg w req)).
         videoKbps a =
           (if index a = 0
            then initialVideoKbps_simple d (targetBytes cfg) (AUDIO_KBPS cfg)
            else js_max (Num 48)
                   (js_floor
                      (js_mul (initialVideoKbps_simple d (targetBytes cfg) (AUDIO_KBPS cfg))
                         (round64 (85 / 100))))) \<and>
         index a < 2))"
  using retry_kbps_le [of _ "targetBytes cfg" "AUDIO_KBPS cfg"]
  by (auto simp: upload_retry_def retry_failed_def retry_delivered_def Let_def
      split: option.splits sum.splits)

text \<open>
  When the duration is a number, the plan is not \<^verbatim>\<open>NaN\<close>, and the bitrates of the request
  descend in the order of JavaScript.
\<close>

lemma initial_not_NaN:
  assumes "x \<noteq> 0"
  shows "initialVideoKbps_queued (Num x) tb a \<noteq> NaN" "initialVideoKbps_simple (Num x) tb a \<noteq> NaN"
  using spec_plan_ge [OF assms, of 56 180 tb a] spec_plan_ge [OF assms, of 64 200 tb a]
    js_le_not_NaN
  by (auto simp: queued_is_spec simple_is_spec)

lemma first_bitrate:
  assumes "xs \<noteq> []" and "map index xs = [0..<length xs]"
    and "\<forall>a \<in> set xs. videoKbps a = (if index a = 0 then init else g a)"
  shows "hd (map videoKbps xs) = init"
proof -
  from assms(1) have l: "0 < length xs" by simp
  from assms(2) have "map index xs ! 0 = [0..<length xs] ! 0" by simp
  with l have "index (xs ! 0) = 0" by simp
  moreover from l have "xs ! 0 \<in> set xs" by simp
  ultimately have "videoKbps (xs ! 0) = init" using assms(3) by simp
  with l show ?thesis by (simp add: hd_map hd_conv_nth)
qed


section \<open>A schedule that never reaches the budget\<close>




section \<open>The bitrates of a request whose duration is a number\<close>

text \<open>
  A request whose duration is a number: the bitrates are numbers and descend in the order
  of JavaScript.
\<close>

lemma queued_numbers:
  assumes "file_field req = Some f" and "probe w (Upload (file_path f)) = Some meta"
    and "duration meta = Num x"
  shows "sorted_wrt (\<lambda>earlier later. js_le later earlier)
           (map videoKbps (invoked (upload_queued cfg w req))) \<and>
         (\<forall>a \<in> set (invoked (upload_queued cfg w req)). videoKbps a \<noteq> NaN)"
proof (cases "invoked (upload_queued cfg w req) = []")
  case True
  then show ?thesis by simp
next
  case False
  from duration_not_zero [of meta] assms(3) have x: "x \<noteq> 0" by auto
  from queued_bitrates [of cfg w req] assms(1,2)
  have v: "\<forall>a \<in> set (invoked (upload_queued cfg w req)).
      videoKbps a =
        (if index a = 0
         then initialVideoKbps_queued (duration meta) (targetBytes cfg) (AUDIO_KBPS cfg)
         else js_max (Num 48)
                (js_floor
                   (js_mul (initialVideoKbps_queued (duration meta) (targetBytes cfg) (AUDIO_KBPS cfg))
                      (factors ! index a))))"
    by blast
  from queued_shape [of cfg w req]
  have o: "map index (invoked (upload_queued cfg w req)) =
      [0..<length (invoked (upload_queued cfg w req))]" by blast
  from first_bitrate [OF False o v] initial_not_NaN(1) [OF x] assms(3)
  have h: "hd (map videoKbps (invoked (upload_queued cfg w req))) \<noteq> NaN" by simp
  from queued_bitrates [of cfg w req]
  have s: "sorted_wrt (\<lambda>earlier later. at_most later earlier)
     (map videoKbps (invoked (upload_queued cfg w req)))" by blast
  from sorted_numbers [OF s _ h] False show ?thesis by simp
qed

lemma simple_numbers:
  assumes "file_field req = Some f" and "probe w (Upload (file_path f)) = Some meta"
    and "duration meta = Num x"
  shows "sorted_wrt (\<lambda>earlier later. js_le later earlier)
           (map videoKbps (invoked (upload_simple cfg w req))) \<and>
         (\<forall>a \<in> set (invoked (upload_simple cfg w req)). videoKbps a \<noteq> NaN)"
proof (cases "invoked (upload_simple cfg w req) = []")
  case True
  then show ?thesis by simp
next
  case False
  from duration_not_zero [of meta] assms(3) have x: "x \<noteq> 0" by auto
  from simple_bitrates [of cfg w req] assms(1,2)
  have v: "\<forall>a \<in> set (invoked (upload_simple cfg w req)).
      videoKbps a =
        (if index a = 0
         then initialVideoKbps_simple (duration meta) (targetBytes cfg) (AUDIO_KBPS cfg)
         else js_max (Num 48)
                (js_floor
                   (js_mul (initialVideoKbps_simple (duration meta) (targetBytes cfg) (AUDIO_KBPS cfg))
                      (passes ! index a))))"
    by blast
  from simple_shape [of cfg w req]
  have o: "map index (invoked (upload_simple cfg w req)) =
      [0..<length (invoked (upload_simple cfg w req))]" by blast
  from first_bitrate [OF False o v] initial_not_NaN(2) [OF x] assms(3)
  have h: "hd (map videoKbps (invoked (upload_simple cfg w req))) \<noteq> NaN" by simp
  from simple_bitrates [of cfg w req]
  have s: "sorted_wrt (\<lambda>earlier later. at_most later earlier)
     (map videoKbps (invoked (upload_simple cfg w req)))" by blast
  from sorted_numbers [OF s _ h] False show ?thesis by simp
qed

lemma duration_retry_not_zero: "duration_retry meta = Inr (Num x) \<Longrightarrow> x \<noteq> 0"
proof -
  assume a: "duration_retry meta = Inr (Num x)"
  then obtain f where f: "format meta = Some f"
    by (cases "format meta") (simp_all add: duration_retry_def)
  with a have "duration meta = Num x" by (simp add: duration_retry_def duration_def)
  with duration_not_zero [of meta] show ?thesis by auto
qed

lemma retry_numbers:
  assumes "file_field req = Some f" and "probe w (Upload (file_path f)) = Some meta"
    and "duration_retry meta = Inr (Num x)"
  shows "sorted_wrt (\<lambda>earlier later. js_le later earlier)
           (map videoKbps (invoked (upload_retry cfg w req)))"
proof -
  from assms(3) have x: "x \<noteq> 0" by (rule duration_retry_not_zero)
  have n: "initialVideoKbps_simple (Num x) (targetBytes cfg) (AUDIO_KBPS cfg) \<noteq> NaN"
    by (rule initial_not_NaN(2) [OF x])
  from retry_kbps_le [of "Num x" "targetBytes cfg" "AUDIO_KBPS cfg"] n
  have "js_le (js_max (Num 48)
          (js_floor (js_mul (initialVideoKbps_simple (Num x) (targetBytes cfg) (AUDIO_KBPS cfg))
             (round64 (85 / 100)))))
        (initialVideoKbps_simple (Num x) (targetBytes cfg) (AUDIO_KBPS cfg))"
    by (rule at_most_js_le)
  with assms show ?thesis
    by (auto simp: upload_retry_def retry_failed_def retry_delivered_def Let_def
        split: option.splits)
qed

section \<open>The claims about the loop\<close>

lemmas mock_defs = mock_world_def mock_probe_def mock_size_def attempt_no_def sample_request_def
  sample_file_def default_config_def MB_def

lemmas plan_eval = duration_def duration_retry_def or_one_def truthy_def to_number_def
  targetBytes_def initialVideoKbps_queued_def totalKbps_queued_def initialVideoKbps_simple_def
  totalKbps_simple_def round64_eval

text \<open>
  Claim C1. In the queued and in the simple revision the encoder invocations of a request
  carry the indices 0, 1, 2, ... in this order and are no more than the schedule has
  factors. Every invocation that has a successor was measured above the budget, so an
  attempt within the budget is the last one, and a delivery after fewer attempts than the
  schedule has factors ends with an attempt within the budget. With the schedule
  1.00, 0.82, 0.68, 0.56, a budget of 9.8 MB and outputs of 12 MB and 9 MB for the first
  two attempts, the attempts made are those of index 0 and 1.
\<close>

theorem attempts_in_schedule_order:
  fixes cfg :: config and w :: world and req :: request
  defines "made \<equiv> invoked (upload_queued cfg w req)"
    and "made' \<equiv> invoked (upload_simple cfg w req)"
    and "tb \<equiv> targetBytes cfg"
  shows
   "map index made = [0..<length made] \<and> length made \<le> length factors \<and>
    (\<forall>k. Suc k < length made \<longrightarrow> oversized tb (made ! k)) \<and>
    (\<forall>k<length made. fits tb (made ! k) \<longrightarrow> Suc k = length made) \<and>
    (\<forall>x. reply (upload_queued cfg w req) = Some x \<and> status x = 200 \<and>
         length made < length factors \<longrightarrow> made \<noteq> [] \<and> fits tb (last made)) \<and>
    map index made' = [0..<length made'] \<and> length made' \<le> length passes \<and>
    (\<forall>k. Suc k < length made' \<longrightarrow> oversized tb (made' ! k)) \<and>
    (\<forall>k<length made'. fits tb (made' ! k) \<longrightarrow> Suc k = length made') \<and>
    (\<forall>x. reply (upload_simple cfg w req) = Some x \<and> status x = 200 \<and>
         length made' < length passes \<longrightarrow> made' \<noteq> [] \<and> fits tb (last made')) \<and>
    (\<forall>f. file_field req = Some f \<and> probe w (Upload (file_path f)) \<noteq> None \<and>
         TARGET_MB cfg = 98 / 10 \<and>
         (\<forall>vk. encode w (Upload (file_path f))
                 (TmpOut (now w 0) First (outName (originalname f))) vk
                 (AUDIO_KBPS cfg) (MAX_WIDTH cfg)) \<and>
         stat_size w (TmpOut (now w 0) First (outName (originalname f))) = Some (12 * MB) \<and>
         (\<forall>vk. encode w (Upload (file_path f))
                 (TmpOut (now w 1) (Pass 1) (outName (originalname f))) vk
                 (AUDIO_KBPS cfg) (MAX_WIDTH cfg)) \<and>
         stat_size w (TmpOut (now w 1) (Pass 1) (outName (originalname f))) = Some (9 * MB)
         \<longrightarrow> map index made = [0, 1])"
proof -
  have "\<forall>f. file_field req = Some f \<and> probe w (Upload (file_path f)) \<noteq> None \<and>
         TARGET_MB cfg = 98 / 10 \<and>
         (\<forall>vk. encode w (Upload (file_path f))
                 (TmpOut (now w 0) First (outName (originalname f))) vk
                 (AUDIO_KBPS cfg) (MAX_WIDTH cfg)) \<and>
         stat_size w (TmpOut (now w 0) First (outName (originalname f))) = Some (12 * MB) \<and>
         (\<forall>vk. encode w (Upload (file_path f))
                 (TmpOut (now w 1) (Pass 1) (outName (originalname f))) vk
                 (AUDIO_KBPS cfg) (MAX_WIDTH cfg)) \<and>
         stat_size w (TmpOut (now w 1) (Pass 1) (outName (originalname f))) = Some (9 * MB)
         \<longrightarrow> map index made = [0, 1]"
    unfolding made_def using queued_stops_at_second [of req _ w cfg] by blast
  with queued_shape [of cfg w req] simple_shape [of cfg w req] show ?thesis
    unfolding made_def made'_def tb_def by blast
qed

theorem attempts_in_schedule_order_witness:
  "map index (invoked (upload_queued default_config
      (mock_world 30 [Some (12 * MB), Some (9 * MB), Some (5 * MB), Some (5 * MB)])
      sample_request)) = [0, 1] \<and>
   map resultBytes (invoked (upload_queued default_config
      (mock_world 30 [Some (12 * MB), Some (9 * MB), Some (5 * MB), Some (5 * MB)])
      sample_request)) = [Some (12 * MB), Some (9 * MB)] \<and>
   targetBytes default_config = 10276044 \<and> 9 * MB \<le> targetBytes default_config \<and>
   targetBytes default_config < 12 * MB"
proof -
  let ?w = "mock_world 30 [Some (12 * MB), Some (9 * MB), Some (5 * MB), Some (5 * MB)]"
  have h: "file_field sample_request = Some sample_file"
    "probe ?w (Upload (file_path sample_file)) \<noteq> None"
    "TARGET_MB default_config = 98 / 10"
    "\<forall>vk. encode ?w (Upload (file_path sample_file))
                 (TmpOut (now ?w 0) First (outName (originalname sample_file))) vk
                 (AUDIO_KBPS default_config) (MAX_WIDTH default_config)"
    "stat_size ?w (TmpOut (now ?w 0) First (outName (originalname sample_file))) = Some (12 * MB)"
    "\<forall>vk. encode ?w (Upload (file_path sample_file))
                 (TmpOut (now ?w 1) (Pass 1) (outName (originalname sample_file))) vk
                 (AUDIO_KBPS default_config) (MAX_WIDTH default_config)"
    "stat_size ?w (TmpOut (now ?w 1) (Pass 1) (outName (originalname sample_file))) = Some (9 * MB)"
    by (simp_all add: mock_defs)
  from attempts_in_schedule_order [of default_config ?w sample_request] h
  have a: "map index (invoked (upload_queued default_config ?w sample_request)) = [0, 1]"
    by blast
  have b: "map resultBytes (invoked (upload_queued default_config ?w sample_request)) =
      [Some (12 * MB), Some (9 * MB)]"
    by (simp add: upload_queued_def job_queued_def Let_def mock_defs factors_def plan_eval)
  have c: "targetBytes default_config = 10276044" "9 * MB \<le> targetBytes default_config"
    "targetBytes default_config < 12 * MB"
    by (simp_all add: targetBytes_def default_config_def MB_def)
  from a b c show ?thesis by (intro conjI)
qed



text \<open>
  Claim C10. Within one request the video bitrates handed to the encoder never increase
  from one attempt to the next, in all three revisions: each is at most the one before it.
  The attempt of index 0 is encoded at the planned initial bitrate, an attempt of index
  \<open>i > 0\<close> at \<^verbatim>\<open>Math.max(48, Math.floor(initialVideoKbps * factors[i]))\<close> with the product
  rounded as the program rounds it, and the factor lists are hard-coded, start at 1 and
  descend. When the duration is a number, the bitrates are numbers and \<^verbatim>\<open>later <= earlier\<close>
  holds for them; a plan that is \<^verbatim>\<open>NaN\<close> gives \<^verbatim>\<open>NaN\<close> at every attempt.
\<close>

theorem bitrates_never_increase:
  fixes cfg :: config and w :: world and req :: request
  defines "tb \<equiv> targetBytes cfg" and "audio \<equiv> AUDIO_KBPS cfg"
  shows
   "sorted_wrt (\<lambda>earlier later. at_most later earlier)
      (map videoKbps (invoked (upload_queued cfg w req))) \<and>
    sorted_wrt (\<lambda>earlier later. at_most later earlier)
      (map videoKbps (invoked (upload_simple cfg w req))) \<and>
    sorted_wrt (\<lambda>earlier later. at_most later earlier)
      (map videoKbps (invoked (upload_retry cfg w req))) \<and>
    (\<forall>f meta. file_field req = Some f \<and> probe w (Upload (file_path f)) = Some meta \<longrightarrow>
       (\<forall>a \<in> set (invoked (upload_queued cfg w req)).
          videoKbps a =
            (if index a = 0 then initialVideoKbps_queued (duration meta) tb audio
             else js_max (Num 48)
                    (js_floor (js_mul (initialVideoKbps_queued (duration meta) tb audio)
                                 (factors ! index a)))) \<and>
          index a < length factors) \<and>
       (\<forall>a \<in> set (invoked (upload_simple cfg w req)).
          videoKbps a =
            (if index a = 0 then initialVideoKbps_simple (duration meta) tb audio
             else js_max (Num 48)
                    (js_floor (js_mul (initialVideoKbps_simple (duration meta) tb audio)
                                 (passes ! index a)))) \<and>
          index a < length passes) \<and>
       (\<forall>d. duration_retry meta = Inr d \<longrightarrow>
          (\<forall>a \<in> set (invoked (upload_retry cfg w req)).
             videoKbps a =
               (if index a = 0 then initialVideoKbps_simple d tb audio
                else js_max (Num 48)
                       (js_floor (js_mul (initialVideoKbps_simple d tb audio)
                                    (round64 (85 / 100))))) \<and>
             index a < 2)) \<and>
       (\<forall>x. duration meta = Num x \<longrightarrow>
          sorted_wrt (\<lambda>earlier later. js_le later earlier)
            (map videoKbps (invoked (upload_queued cfg w req))) \<and>
          sorted_wrt (\<lambda>earlier later. js_le later earlier)
            (map videoKbps (invoked (upload_simple cfg w req)))) \<and>
       (\<forall>x. duration_retry meta = Inr (Num x) \<longrightarrow>
          sorted_wrt (\<lambda>earlier later. js_le later earlier)
            (map videoKbps (invoked (upload_retry cfg w req))))) \<and>
    factors = [round64 1, round64 (82 / 100), round64 (68 / 100), round64 (56 / 100)] \<and>
    passes = [round64 1, round64 (85 / 100), round64 (72 / 100)] \<and>
    hd factors = Num 1 \<and> hd passes = Num 1 \<and>
    sorted_wrt (\<lambda>earlier later. js_le later earlier) factors \<and>
    sorted_wrt (\<lambda>earlier later. js_le later earlier) passes \<and>
    sorted_wrt (\<lambda>earlier later. js_le later earlier) [Num 1, round64 (85 / 100)]"
proof -
  have a: "factors = [round64 1, round64 (82 / 100), round64 (68 / 100), round64 (56 / 100)]"
    "passes = [round64 1, round64 (85 / 100), round64 (72 / 100)]"
    by (simp_all only: factors_def passes_def)
  have h: "hd factors = Num 1" "hd passes = Num 1"
    "sorted_wrt (\<lambda>earlier later. js_le later earlier) factors"
    "sorted_wrt (\<lambda>earlier later. js_le later earlier) passes"
    by (simp_all add: factors_values passes_values)
  have h': "sorted_wrt (\<lambda>earlier later. js_le later earlier) [Num 1, round64 (85 / 100)]"
    unfolding literals by simp
  have r: "\<forall>f meta d. file_field req = Some f \<and> probe w (Upload (file_path f)) = Some meta \<and>
        duration_retry meta = Inr d \<longrightarrow>
      (\<forall>a \<in> set (invoked (upload_retry cfg w req)).
         videoKbps a =
           (if index a = 0
            then initialVideoKbps_simple d (targetBytes cfg) (AUDIO_KBPS cfg)
            else js_max (Num 48)
                   (js_floor
                      (js_mul (initialVideoKbps_simple d (targetBytes cfg) (AUDIO_KBPS cfg))
                         (round64 (85 / 100))))) \<and>
         index a < 2)"
    using retry_bitrates [of cfg w req] by (rule conjunct2)
  have n: "\<forall>f meta x. file_field req = Some f \<and> probe w (Upload (file_path f)) = Some meta \<and>
        duration meta = Num x \<longrightarrow>
          sorted_wrt (\<lambda>earlier later. js_le later earlier)
            (map videoKbps (invoked (upload_queued cfg w req))) \<and>
          sorted_wrt (\<lambda>earlier later. js_le later earlier)
            (map videoKbps (invoked (upload_simple cfg w req)))"
    using queued_numbers [of req _ w _ _ cfg] simple_numbers [of req _ w _ _ cfg] by blast
  have n': "\<forall>f meta x. file_field req = Some f \<and> probe w (Upload (file_path f)) = Some meta \<and>
        duration_retry meta = Inr (Num x) \<longrightarrow>
          sorted_wrt (\<lambda>earlier later. js_le later earlier)
            (map videoKbps (invoked (upload_retry cfg w req)))"
    using retry_numbers [of req _ w _ _ cfg] by blast
  have s: "sorted_wrt (\<lambda>earlier later. at_most later earlier)
      (map videoKbps (invoked (upload_queued cfg w req)))"
    "sorted_wrt (\<lambda>earlier later. at_most later earlier)
      (map videoKbps (invoked (upload_simple cfg w req)))"
    "sorted_wrt (\<lambda>earlier later. at_most later earlier)
      (map videoKbps (invoked (upload_retry cfg w req)))"
    using queued_bitrates [of cfg w req] simple_bitrates [of cfg w req]
      retry_bitrates [of cfg w req] by blast+
  have q: "\<forall>f meta. file_field req = Some f \<and> probe w (Upload (file_path f)) = Some meta \<longrightarrow>
      (\<forall>a \<in> set (invoked (upload_queued cfg w req)).
         videoKbps a =
           (if index a = 0
            then initialVideoKbps_queued (duration meta) (targetBytes cfg) (AUDIO_KBPS cfg)
            else js_max (Num 48)
                   (js_floor
                      (js_mul (initialVideoKbps_queued (duration meta) (targetBytes cfg) (AUDIO_KBPS cfg))
                         (factors ! index a)))) \<and>
         index a < length factors)"
    using queued_bitrates [of cfg w req] by blast
  have p: "\<forall>f meta. file_field req = Some f \<and> probe w (Upload (file_path f)) = Some meta \<longrightarrow>
      (\<forall>a \<in> set (invoked (upload_simple cfg w req)).
         videoKbps a =
           (if index a = 0
            then initialVideoKbps_simple (duration meta) (targetBytes cfg) (AUDIO_KBPS cfg)
            else js_max (Num 48)
                   (js_floor
                      (js_mul (initialVideoKbps_simple (duration meta) (targetBytes cfg) (AUDIO_KBPS cfg))
                         (passes ! index a)))) \<and>
         index a < length passes)"
    using simple_bitrates [of cfg w req] by blast
  show ?thesis
    unfolding tb_def audio_def
  proof (intro conjI allI impI)
    fix f meta
    assume fm: "file_field req = Some f \<and> probe w (Upload (file_path f)) = Some meta"
    from q fm show "\<forall>a \<in> set (invoked (upload_queued cfg w req)).
         videoKbps a =
           (if index a = 0
            then initialVideoKbps_queued (duration meta) (targetBytes cfg) (AUDIO_KBPS cfg)
            else js_max (Num 48)
                   (js_floor
                      (js_mul (initialVideoKbps_queued (duration meta) (targetBytes cfg) (AUDIO_KBPS cfg))
                         (factors ! index a)))) \<and>
         index a < length factors"
      by blast
    from p fm show "\<forall>a \<in> set (invoked (upload_simple cfg w req)).
         videoKbps a =
           (if index a = 0
            then initialVideoKbps_simple (duration meta) (targetBytes cfg) (AUDIO_KBPS cfg)
            else js_max (Num 48)
                   (js_floor
                      (js_mul (initialVideoKbps_simple (duration meta) (targetBytes cfg) (AUDIO_KBPS cfg))
                         (passes ! index a)))) \<and>
         index a < length passes"
      by blast
    {
      fix d
      assume "duration_retry meta = Inr d"
      with r fm show "\<forall>a \<in> set (invoked (upload_retry cfg w req)).
         videoKbps a =
           (if index a = 0
            then initialVideoKbps_simple d (targetBytes cfg) (AUDIO_KBPS cfg)
            else js_max (Num 48)
                   (js_floor
                      (js_mul (initialVideoKbps_simple d (targetBytes cfg) (AUDIO_KBPS cfg))
                         (round64 (85 / 100))))) \<and>
         index a < 2"
        by blast
    }
    {
      fix x
      assume "duration meta = Num x"
      with n fm show "sorted_wrt (\<lambda>earlier later. js_le later earlier)
            (map videoKbps (invoked (upload_queued cfg w req)))"
        and "sorted_wrt (\<lambda>earlier later. js_le later earlier)
            (map videoKbps (invoked (upload_simple cfg w req)))"
        by blast+
    }
    {
      fix x
      assume "duration_retry meta = Inr (Num x)"
      with n' fm show "sorted_wrt (\<lambda>earlier later. js_le later earlier)
            (map videoKbps (invoked (upload_retry cfg w req)))"
        by blast
    }
  qed (rule s h h' a)+
qed

theorem bitrates_never_increase_witness:
  "map videoKbps (invoked (upload_queued default_config
      (mock_world 30 [Some (12 * MB), Some (11 * MB), Some (12 * MB), Some (13 * MB)])
      sample_request)) = [Num 2644, Num 2168, Num 1797, Num 1480] \<and>
   map videoKbps (invoked (upload_simple default_config
      (mock_world 30 [Some (12 * MB), Some (11 * MB), Some (12 * MB), Some (13 * MB)])
      sample_request)) = [Num 2644, Num 2247, Num 1903] \<and>
   map videoKbps (invoked (upload_retry default_config
      (mock_world 30 [Some (12 * MB), Some (11 * MB), Some (12 * MB), Some (13 * MB)])
      sample_request)) = [Num 2644, Num 2247] \<and>
   map videoKbps (invoked (upload_queued default_config
      (mock_world 118 [Some (12 * MB), Some (11 * MB), Some (12 * MB), Some (13 * MB)])
      sample_request)) = [Num 600, Num 491, Num 408, Num 336] \<and>
   sorted_wrt (\<lambda>earlier later. at_most later earlier) [Num 2644, Num 2168, Num 1797, Num 1480] \<and>
   sorted_wrt (\<lambda>earlier later. js_le later earlier) [Num 600, Num 491, Num 408, Num 336]"
proof -
  let ?w = "mock_world 30 [Some (12 * MB), Some (11 * MB), Some (12 * MB), Some (13 * MB)]"
  let ?v = "mock_world 118 [Some (12 * MB), Some (11 * MB), Some (12 * MB), Some (13 * MB)]"
  have q: "map videoKbps (invoked (upload_queued default_config ?w sample_request)) =
      [Num 2644, Num 2168, Num 1797, Num 1480]"
    by (simp add: upload_queued_def job_queued_def Let_def mock_defs factors_def plan_eval)
  have s: "map videoKbps (invoked (upload_simple default_config ?w sample_request)) =
      [Num 2644, Num 2247, Num 1903]"
    by (simp add: upload_simple_def Let_def mock_defs passes_def plan_eval)
  have r: "map videoKbps (invoked (upload_retry default_config ?w sample_request)) =
      [Num 2644, Num 2247]"
    by (simp add: upload_retry_def retry_delivered_def retry_failed_def Let_def mock_defs
      plan_eval)
  have q': "map videoKbps (invoked (upload_queued default_config ?v sample_request)) =
      [Num 600, Num 491, Num 408, Num 336]"
    by (simp add: upload_queued_def job_queued_def Let_def mock_defs factors_def plan_eval)
  have h: "file_field sample_request = Some sample_file"
    "probe ?v (Upload (file_path sample_file)) =
       Some \<lparr>format = Some \<lparr>duration_field = JNumber (Num 118)\<rparr>\<rparr>"
    "duration \<lparr>format = Some \<lparr>duration_field = JNumber (Num 118)\<rparr>\<rparr> = Num 118"
    by (simp_all add: mock_defs plan_eval)
  note t = bitrates_never_increase [of default_config ?w sample_request]
  note t' = bitrates_never_increase [of default_config ?v sample_request]
  from t have "sorted_wrt (\<lambda>earlier later. at_most later earlier)
          (map videoKbps (invoked (upload_queued default_config ?w sample_request)))"
    by (rule conjunct1)
  then have a: "sorted_wrt (\<lambda>earlier later. at_most later earlier)
      [Num 2644, Num 2168, Num 1797, Num 1480]"
    unfolding q .
  from t' h have "sorted_wrt (\<lambda>earlier later. js_le later earlier)
          (map videoKbps (invoked (upload_queued default_config ?v sample_request)))"
    by blast
  then have b: "sorted_wrt (\<lambda>earlier later. js_le later earlier)
      [Num 600, Num 491, Num 408, Num 336]"
    unfolding q' .
  from q s r q' a b show ?thesis by (intro conjI)
qed

section \<open>The plan for a clip of thirty seconds\<close>

text \<open>
  The configured default \<^verbatim>\<open>parseFloat('9.8')\<close> is the double nearest to 9.8; the budget is the
  same for it as for 9.8 itself.
\<close>

lemma targetBytes_nearest_double:
  "round64 (98 / 10) = Num (2758454771764429 / 281474976710656)"
  "targetBytes (default_config\<lparr>TARGET_MB := 2758454771764429 / 281474976710656\<rparr>) = 10276044"
  by (simp_all add: targetBytes_def round64_eval)

lemma duration_thirty:
  "format meta = Some fi \<Longrightarrow> duration_field fi = JNumber (Num 30) \<Longrightarrow>
   duration meta = Num 30 \<and> duration_retry meta = Inr (Num 30)"
  by (simp add: duration_def duration_retry_def or_one_def truthy_def to_number_def)

lemma plan_thirty:
  "totalKbps_simple (Num 30) 10276044 = Num 2740"
  "initialVideoKbps_simple (Num 30) 10276044 96 = Num 2644"
  "totalKbps_queued (Num 30) 10276044 = Num 2740"
  "initialVideoKbps_queued (Num 30) 10276044 96 = Num 2644"
  by (simp_all add: totalKbps_simple_def initialVideoKbps_simple_def totalKbps_queued_def
      initialVideoKbps_queued_def round64_eval)

lemma simple_first_attempt:
  assumes "file_field req = Some f" "probe w (Upload (file_path f)) = Some meta"
  shows "map videoKbps (take 1 (invoked (upload_simple cfg w req))) =
           [initialVideoKbps_simple (duration meta) (targetBytes cfg) (AUDIO_KBPS cfg)] \<and>
         (\<forall>sz. encode w (Upload (file_path f)) (TmpOut (now w 0) First (outName (originalname f)))
                 (initialVideoKbps_simple (duration meta) (targetBytes cfg) (AUDIO_KBPS cfg))
                 (AUDIO_KBPS cfg) (MAX_WIDTH cfg) \<and>
               stat_size w (TmpOut (now w 0) First (outName (originalname f))) = Some sz \<and>
               sz \<le> targetBytes cfg \<longrightarrow>
               invoked (upload_simple cfg w req) =
                 [\<lparr>index = 0, outputLocation = TmpOut (now w 0) First (outName (originalname f)),
                   videoKbps = initialVideoKbps_simple (duration meta) (targetBytes cfg) (AUDIO_KBPS cfg),
                   resultBytes = Some sz\<rparr>])"
proof (cases rule: upload_simple_cases [of req cfg w])
  case no_file
  with assms show ?thesis by simp
next
  case (no_probe f')
  with assms show ?thesis by simp
next
  case (looped f' meta' e r)
  with assms have eq: "f' = f" "meta' = meta" by simp_all
  have i: "invoked (upload_simple cfg w req) = attempts r"
    using looped(4) by simp
  from looped(3) show ?thesis
    unfolding i eq passes_def
    by (cases rule: loop_Cons_cases) (auto simp: pass_kbps_def pass_out_def)
qed

lemma retry_first_attempt:
  assumes "file_field req = Some f" "probe w (Upload (file_path f)) = Some meta"
    "duration_retry meta = Inr d"
  shows "map videoKbps (take 1 (invoked (upload_retry cfg w req))) =
           [initialVideoKbps_simple d (targetBytes cfg) (AUDIO_KBPS cfg)] \<and>
         (\<forall>sz. encode w (Upload (file_path f)) (TmpOut (now w 0) First (outName (originalname f)))
                 (initialVideoKbps_simple d (targetBytes cfg) (AUDIO_KBPS cfg))
                 (AUDIO_KBPS cfg) (MAX_WIDTH cfg) \<and>
               stat_size w (TmpOut (now w 0) First (outName (originalname f))) = Some sz \<and>
               sz \<le> targetBytes cfg \<longrightarrow>
               invoked (upload_retry cfg w req) =
                 [\<lparr>index = 0, outputLocation = TmpOut (now w 0) First (outName (originalname f)),
                   videoKbps = initialVideoKbps_simple d (targetBytes cfg) (AUDIO_KBPS cfg),
                   resultBytes = Some sz\<rparr>])"
  using assms
  by (auto simp: upload_retry_def retry_failed_def retry_delivered_def Let_def
      split: option.splits)

text \<open>
  Claim C9, as the code computes it. For a probe that reports 30 seconds, a target of
  9.8 MB and 96 kbps audio the budget is 10276044 bytes, the total bitrate is 2740 kbps
  and the initial video bitrate 2644 kbps, in the simple and in the retry revision. The
  first attempt is encoded at 2644 kbps, and when its output has at most 10276044 bytes
  it is the only attempt of the request.
\<close>

theorem thirty_second_plan:
  fixes cfg :: config and w :: world and req :: request and f :: upload_file
  defines "firstOut \<equiv> TmpOut (now w 0) First (outName (originalname f))"
  assumes "file_field req = Some f"
    and "probe w (Upload (file_path f)) = Some meta"
    and "format meta = Some fi" and "duration_field fi = JNumber (Num 30)"
    and "TARGET_MB cfg = 98 / 10" and "AUDIO_KBPS cfg = 96"
  shows
   "targetBytes cfg = 10276044 \<and>
    totalKbps_simple (duration meta) (targetBytes cfg) = Num 2740 \<and>
    initialVideoKbps_simple (duration meta) (targetBytes cfg) (AUDIO_KBPS cfg) = Num 2644 \<and>
    map videoKbps (take 1 (invoked (upload_simple cfg w req))) = [Num 2644] \<and>
    map videoKbps (take 1 (invoked (upload_retry cfg w req))) = [Num 2644] \<and>
    (\<forall>sz. encode w (Upload (file_path f)) firstOut (Num 2644) 96 (MAX_WIDTH cfg) \<and>
          stat_size w firstOut = Some sz \<and> sz \<le> 10276044 \<longrightarrow>
          invoked (upload_simple cfg w req) =
            [\<lparr>index = 0, outputLocation = firstOut, videoKbps = Num 2644, resultBytes = Some sz\<rparr>] \<and>
          invoked (upload_retry cfg w req) =
            [\<lparr>index = 0, outputLocation = firstOut, videoKbps = Num 2644, resultBytes = Some sz\<rparr>])"
proof -
  have tb: "targetBytes cfg = 10276044"
    using assms(6) by (rule targetBytes_default)
  have d: "duration meta = Num 30" "duration_retry meta = Inr (Num 30)"
    using duration_thirty [OF assms(4,5)] by simp_all
  from simple_first_attempt [OF assms(2,3), of cfg] retry_first_attempt [OF assms(2,3) d(2), of cfg]
  show ?thesis
    unfolding firstOut_def d tb assms(7) plan_thirty by simp
qed

theorem thirty_second_plan_witness:
  "targetBytes default_config = 10276044 \<and>
   invoked (upload_simple default_config (mock_world 30 [Some (9 * MB)]) sample_request) =
     [\<lparr>index = 0, outputLocation = TmpOut 1700000000000 First (outName (Some ''clip.mov'')),
       videoKbps = Num 2644, resultBytes = Some 9437184\<rparr>] \<and>
   invoked (upload_retry default_config (mock_world 30 [Some (9 * MB)]) sample_request) =
     [\<lparr>index = 0, outputLocation = TmpOut 1700000000000 First (outName (Some ''clip.mov'')),
       videoKbps = Num 2644, resultBytes = Some 9437184\<rparr>]"
proof -
  let ?w = "mock_world 30 [Some (9 * MB)]"
  have h: "file_field sample_request = Some sample_file"
    "probe ?w (Upload (file_path sample_file)) =
       Some \<lparr>format = Some \<lparr>duration_field = JNumber (Num 30)\<rparr>\<rparr>"
    "format \<lparr>format = Some \<lparr>duration_field = JNumber (Num 30)\<rparr>\<rparr> =
       Some \<lparr>duration_field = JNumber (Num 30)\<rparr>"
    "duration_field \<lparr>duration_field = JNumber (Num 30)\<rparr> = JNumber (Num 30)"
    "TARGET_MB default_config = 98 / 10" "AUDIO_KBPS default_config = 96"
    by (simp_all add: mock_defs)
  have e: "encode ?w (Upload (file_path sample_file))
        (TmpOut (now ?w 0) First (outName (originalname sample_file))) (Num 2644) 96
        (MAX_WIDTH default_config)"
    "stat_size ?w (TmpOut (now ?w 0) First (outName (originalname sample_file))) = Some 9437184"
    "(9437184 :: int) \<le> 10276044"
    by (simp_all add: mock_defs)
  have n: "TmpOut (now ?w 0) First (outName (originalname sample_file)) =
      TmpOut 1700000000000 First (outName (Some ''clip.mov''))"
    by (simp add: mock_defs)
  from thirty_second_plan [OF h] e show ?thesis
    unfolding n by blast
qed

theorem thirty_second_plan_counterexample:
  "totalKbps_simple (duration \<lparr>format = Some \<lparr>duration_field = JNumber (Num 30)\<rparr>\<rparr>)
     (targetBytes default_config) \<noteq> Num 2744 \<and>
   initialVideoKbps_simple (duration \<lparr>format = Some \<lparr>duration_field = JNumber (Num 30)\<rparr>\<rparr>)
     (targetBytes default_config) (AUDIO_KBPS default_config) \<noteq> Num 2648 \<and>
   spec_totalKbps 200 (Num 30) \<lfloor>(98 / 10 :: real) * 1024 * 1024\<rfloor> \<noteq> Num 2744 \<and>
   exact_totalKbps 200 30 \<lfloor>(98 / 10 :: real) * 1024 * 1024\<rfloor> \<noteq> 2744"
  by (simp add: default_config_def spec_totalKbps_def exact_totalKbps_def plan_eval)

section \<open>Responses and cleanup\<close>

lemma queued_reply:
  "(file_field req = None \<longrightarrow> reply (upload_queued cfg w req) = Some no_file_response) \<and>
   (\<forall>f. file_field req = Some f \<and> probe w (Upload (file_path f)) = None \<longrightarrow>
      reply (upload_queued cfg w req) = Some (failed None None failure_message)) \<and>
   ((\<exists>a \<in> set (invoked (upload_queued cfg w req)). resultBytes a = None) \<longrightarrow>
      reply (upload_queued cfg w req) = Some (failed None None failure_message)) \<and>
   (length (invoked (upload_queued cfg w req)) = length factors \<and>
    (\<forall>a \<in> set (invoked (upload_queued cfg w req)). oversized (targetBytes cfg) a) \<and>
    stream_ok w (outputLocation (last (invoked (upload_queued cfg w req)))) \<longrightarrow>
      (\<exists>x. reply (upload_queued cfg w req) = Some x \<and> status x = 200 \<and>
           contentType x = Some ''video/mp4'' \<and>
           content x = FileBytes (outputLocation (last (invoked (upload_queued cfg w req))))))"
proof (cases rule: upload_queued_cases [of req cfg w])
  case no_file
  then show ?thesis by (simp add: factors_def)
next
  case (no_probe f)
  then show ?thesis by (simp add: factors_def)
next
  case (looped f meta e r)
  have i: "invoked (upload_queued cfg w req) = attempts r"
    using looped(4) by simp
  have ne: "attempts r \<noteq> []"
    using looped(3) unfolding factors_def by (rule loop_nonempty)
  have a: "(\<exists>a \<in> set (attempts r). resultBytes a = None) \<longrightarrow> e \<noteq> None"
    using loop_ok [of w cfg _ _ _ _ _ 0 factors _ _ r] looped(3) by (cases e) auto
  have b: "(\<forall>a \<in> set (attempts r). oversized (targetBytes cfg) a) \<longrightarrow>
      e = None \<and> lastOut r = outputLocation (last (attempts r))"
  proof
    assume o: "\<forall>a \<in> set (attempts r). oversized (targetBytes cfg) a"
    show "e = None \<and> lastOut r = outputLocation (last (attempts r))"
    proof (cases e)
      case None
      with loop_ok [of w cfg _ _ _ _ _ 0 factors _ _ r] looped(3) ne show ?thesis by auto
    next
      case (Some x)
      with loop_error [of w cfg _ _ _ _ _ 0 factors _ _ x r] looped(3)
      have "resultBytes (last (attempts r)) = None" by auto
      moreover from o ne have "oversized (targetBytes cfg) (last (attempts r))" by simp
      ultimately show ?thesis by (simp add: oversized_def)
    qed
  qed
  from a b looped(1,2,4) show ?thesis
    unfolding i by (auto simp: streamDownload_def)
qed

lemma simple_reply:
  "(file_field req = None \<longrightarrow> reply (upload_simple cfg w req) = Some no_file_response) \<and>
   (\<forall>f. file_field req = Some f \<and> probe w (Upload (file_path f)) = None \<longrightarrow>
      reply (upload_simple cfg w req) = Some (failed None None failure_message)) \<and>
   ((\<exists>a \<in> set (invoked (upload_simple cfg w req)). resultBytes a = None) \<longrightarrow>
      reply (upload_simple cfg w req) = Some (failed None None failure_message)) \<and>
   (length (invoked (upload_simple cfg w req)) = length passes \<and>
    (\<forall>a \<in> set (invoked (upload_simple cfg w req)). oversized (targetBytes cfg) a) \<and>
    stream_ok w (outputLocation (last (invoked (upload_simple cfg w req)))) \<longrightarrow>
      (\<exists>x. reply (upload_simple cfg w req) = Some x \<and> status x = 200 \<and>
           contentType x = Some ''video/mp4'' \<and>
           content x = FileBytes (outputLocation (last (invoked (upload_simple cfg w req))))))"
proof (cases rule: upload_simple_cases [of req cfg w])
  case no_file
  then show ?thesis by (simp add: passes_def)
next
  case (no_probe f)
  then show ?thesis by (simp add: passes_def)
next
  case (looped f meta e r)
  have i: "invoked (upload_simple cfg w req) = attempts r"
    using looped(4) by simp
  have ne: "attempts r \<noteq> []"
    using looped(3) unfolding passes_def by (rule loop_nonempty)
  have a: "(\<exists>a \<in> set (attempts r). resultBytes a = None) \<longrightarrow> e \<noteq> None"
    using loop_ok [of w cfg _ _ _ _ _ 0 passes _ _ r] looped(3) by (cases e) auto
  have b: "(\<forall>a \<in> set (attempts r). oversized (targetBytes cfg) a) \<longrightarrow>
      e = None \<and> lastOut r = outputLocation (last (attempts r))"
  proof
    assume o: "\<forall>a \<in> set (attempts r). oversized (targetBytes cfg) a"
    show "e = None \<and> lastOut r = outputLocation (last (attempts r))"
    proof (cases e)
      case None
      with loop_ok [of w cfg _ _ _ _ _ 0 passes _ _ r] looped(3) ne show ?thesis by auto
    next
      case (Some x)
      with loop_error [of w cfg _ _ _ _ _ 0 passes _ _ x r] looped(3)
      have "resultBytes (last (attempts r)) = None" by auto
      moreover from o ne have "oversized (targetBytes cfg) (last (attempts r))" by simp
      ultimately show ?thesis by (simp add: oversized_def)
    qed
  qed
  from a b looped(1,2,4) show ?thesis
    unfolding i by (auto simp: streamDownload_def)
qed

text \<open>
  Claim C6. In the queued and in the simple revision a request without a file is answered
  with status 400. A failing probe, and an encoder invocation that ends without a measured
  output, are answered with status 500 and the one fixed text. A request whose attempts were
  all made and all measured above the budget is no error: with a working stream the
  answer is status 200 with content type \<^verbatim>\<open>video/mp4\<close> and the bytes of the last output.
\<close>

theorem upload_responses:
  fixes cfg :: config and w :: world and req :: request
  defines "res \<equiv> upload_queued cfg w req" and "res' \<equiv> upload_simple cfg w req"
  shows
   "(file_field req = None \<longrightarrow>
       reply res = Some no_file_response \<and> reply res' = Some no_file_response) \<and>
    status no_file_response = 400 \<and>
    (\<forall>f. file_field req = Some f \<and> probe w (Upload (file_path f)) = None \<longrightarrow>
       reply res = Some (failed None None failure_message) \<and>
       reply res' = Some (failed None None failure_message)) \<and>
    ((\<exists>a \<in> set (invoked res). resultBytes a = None) \<longrightarrow>
       reply res = Some (failed None None failure_message)) \<and>
    ((\<exists>a \<in> set (invoked res'). resultBytes a = None) \<longrightarrow>
       reply res' = Some (failed None None failure_message)) \<and>
    status (failed None None failure_message) = 500 \<and>
    content (failed None None failure_message) = Text failure_message \<and>
    (length (invoked res) = length factors \<and>
     (\<forall>a \<in> set (invoked res). oversized (targetBytes cfg) a) \<and>
     stream_ok w (outputLocation (last (invoked res))) \<longrightarrow>
       (\<exists>x. reply res = Some x \<and> status x = 200 \<and> contentType x = Some ''video/mp4'' \<and>
            content x = FileBytes (outputLocation (last (invoked res))))) \<and>
    (length (invoked res') = length passes \<and>
     (\<forall>a \<in> set (invoked res'). oversized (targetBytes cfg) a) \<and>
     stream_ok w (outputLocation (last (invoked res'))) \<longrightarrow>
       (\<exists>x. reply res' = Some x \<and> status x = 200 \<and> contentType x = Some ''video/mp4'' \<and>
            content x = FileBytes (outputLocation (last (invoked res')))))"
proof -
  have s: "status no_file_response = 400" "status (failed None None failure_message) = 500"
    "content (failed None None failure_message) = Text failure_message"
    by (simp_all add: no_file_response_def failed_def)
  from queued_reply [of req cfg w] simple_reply [of req cfg w] s show ?thesis
    unfolding res_def res'_def by blast
qed

theorem upload_responses_witness:
  "map_option status (reply (upload_queued default_config
      (mock_world 30 [Some (12 * MB), Some (12 * MB), Some (12 * MB), Some (12 * MB)])
      \<lparr>file_field = None\<rparr>)) = Some 400 \<and>
   map resultBytes (invoked (upload_queued default_config
      (mock_world 30 [Some (12 * MB), Some (12 * MB), None]) sample_request)) =
     [Some (12 * MB), Some (12 * MB), None] \<and>
   map_option status (reply (upload_queued default_config
      (mock_world 30 [Some (12 * MB), Some (12 * MB), None]) sample_request)) = Some 500 \<and>
   map resultBytes (invoked (upload_queued default_config
      (mock_world 30 [Some (12 * MB), Some (12 * MB), Some (12 * MB), Some (12 * MB)])
      sample_request)) = [Some (12 * MB), Some (12 * MB), Some (12 * MB), Some (12 * MB)] \<and>
   targetBytes default_config < 12 * MB \<and>
   map_option status (reply (upload_queued default_config
      (mock_world 30 [Some (12 * MB), Some (12 * MB), Some (12 * MB), Some (12 * MB)])
      sample_request)) = Some 200 \<and>
   map_option contentType (reply (upload_queued default_config
      (mock_world 30 [Some (12 * MB), Some (12 * MB), Some (12 * MB), Some (12 * MB)])
      sample_request)) = Some (Some ''video/mp4'')"
proof -
  let ?all = "mock_world 30 [Some (12 * MB), Some (12 * MB), Some (12 * MB), Some (12 * MB)]"
  let ?bad = "mock_world 30 [Some (12 * MB), Some (12 * MB), None]"
  have t: "targetBytes default_config < 12 * MB"
    by (simp add: targetBytes_def default_config_def MB_def)
  have "file_field \<lparr>file_field = None\<rparr> = None" by simp
  with upload_responses [where req = "\<lparr>file_field = None\<rparr>" and cfg = default_config and w = ?all]
  have a: "map_option status (reply (upload_queued default_config ?all \<lparr>file_field = None\<rparr>)) =
      Some 400"
    by simp
  have ib: "invoked (upload_queued default_config ?bad sample_request) =
     [\<lparr>index = 0, outputLocation = TmpOut 1700000000000 First (outName (Some ''clip.mov'')),
       videoKbps = Num 2644, resultBytes = Some (12 * MB)\<rparr>,
      \<lparr>index = 1, outputLocation = TmpOut 1700000000001 (Pass 1) (outName (Some ''clip.mov'')),
       videoKbps = Num 2168, resultBytes = Some (12 * MB)\<rparr>,
      \<lparr>index = 2, outputLocation = TmpOut 1700000000002 (Pass 2) (outName (Some ''clip.mov'')),
       videoKbps = Num 1797, resultBytes = None\<rparr>]"
    by (simp add: upload_queued_def job_queued_def Let_def mock_defs factors_def plan_eval)
  then have "\<exists>a \<in> set (invoked (upload_queued default_config ?bad sample_request)).
      resultBytes a = None"
    by simp
  with upload_responses [where req = sample_request and cfg = default_config and w = ?bad]
  have b: "map_option status (reply (upload_queued default_config ?bad sample_request)) = Some 500"
    by simp
  have ia: "invoked (upload_queued default_config ?all sample_request) =
     [\<lparr>index = 0, outputLocation = TmpOut 1700000000000 First (outName (Some ''clip.mov'')),
       videoKbps = Num 2644, resultBytes = Some (12 * MB)\<rparr>,
      \<lparr>index = 1, outputLocation = TmpOut 1700000000001 (Pass 1) (outName (Some ''clip.mov'')),
       videoKbps = Num 2168, resultBytes = Some (12 * MB)\<rparr>,
      \<lparr>index = 2, outputLocation = TmpOut 1700000000002 (Pass 2) (outName (Some ''clip.mov'')),
       videoKbps = Num 1797, resultBytes = Some (12 * MB)\<rparr>,
      \<lparr>index = 3, outputLocation = TmpOut 1700000000003 (Pass 3) (outName (Some ''clip.mov'')),
       videoKbps = Num 1480, resultBytes = Some (12 * MB)\<rparr>]"
    by (simp add: upload_queued_def job_queued_def Let_def mock_defs factors_def plan_eval)
  have h: "length (invoked (upload_queued default_config ?all sample_request)) = length factors"
    "\<forall>a \<in> set (invoked (upload_queued default_config ?all sample_request)).
        oversized (targetBytes default_config) a"
    "stream_ok ?all (outputLocation (last (invoked (upload_queued default_config ?all sample_request))))"
    unfolding ia using t by (simp_all add: factors_def oversized_def mock_world_def mock_probe_def)
  with upload_responses [where req = sample_request and cfg = default_config and w = ?all]
  have "\<exists>x. reply (upload_queued default_config ?all sample_request) = Some x \<and> status x = 200 \<and>
      contentType x = Some ''video/mp4'' \<and>
      content x = FileBytes (outputLocation (last (invoked (upload_queued default_config ?all sample_request))))"
    by blast
  then have c: "map_option status (reply (upload_queued default_config ?all sample_request)) = Some 200"
    "map_option contentType (reply (upload_queued default_config ?all sample_request)) =
       Some (Some ''video/mp4'')"
    by auto
  from a b c t show ?thesis
    unfolding ia ib by simp
qed

text \<open>
  Claim C5 fails on the code. In the queued revision the handler's \<^verbatim>\<open>catch\<close> block
  schedules the upload alone, and a delivery schedules the upload and the delivered file:
  the outputs of superseded attempts are in neither list. The function handed to
  \<^verbatim>\<open>enqueue\<close> returns \<^verbatim>\<open>firstOut\<close>, but the handler does not read it. When the encoder fails
  at the attempt of index 2, the outputs of the attempts 0 and 1 exist and are not
  scheduled for deletion; when the attempt of index 1 is delivered, the output of attempt 0
  is not scheduled either.
\<close>

theorem cleanup_misses_superseded_outputs:
  "cleanup (upload_queued default_config
      (mock_world 30 [Some (12 * MB), Some (12 * MB), None]) sample_request) =
     [Upload ''tmp/3f9a''] \<and>
   map outputLocation (invoked (upload_queued default_config
      (mock_world 30 [Some (12 * MB), Some (12 * MB), None]) sample_request)) =
     [TmpOut 1700000000000 First (outName (Some ''clip.mov'')),
      TmpOut 1700000000001 (Pass 1) (outName (Some ''clip.mov'')),
      TmpOut 1700000000002 (Pass 2) (outName (Some ''clip.mov''))] \<and>
   map resultBytes (invoked (upload_queued default_config
      (mock_world 30 [Some (12 * MB), Some (12 * MB), None]) sample_request)) =
     [Some (12 * MB), Some (12 * MB), None] \<and>
   TmpOut 1700000000000 First (outName (Some ''clip.mov'')) \<notin>
     set (cleanup (upload_queued default_config
      (mock_world 30 [Some (12 * MB), Some (12 * MB), None]) sample_request)) \<and>
   TmpOut 1700000000001 (Pass 1) (outName (Some ''clip.mov'')) \<notin>
     set (cleanup (upload_queued default_config
      (mock_world 30 [Some (12 * MB), Some (12 * MB), None]) sample_request)) \<and>
   cleanup (upload_queued default_config
      (mock_world 30 [Some (12 * MB), Some (9 * MB)]) sample_request) =
     [Upload ''tmp/3f9a'', TmpOut 1700000000001 (Pass 1) (outName (Some ''clip.mov''))] \<and>
   map outputLocation (invoked (upload_queued default_config
      (mock_world 30 [Some (12 * MB), Some (9 * MB)]) sample_request)) =
     [TmpOut 1700000000000 First (outName (Some ''clip.mov'')),
      TmpOut 1700000000001 (Pass 1) (outName (Some ''clip.mov''))]"
  by (simp add: upload_queued_def job_queued_def Let_def mock_defs factors_def plan_eval
      cleanupLater_def)

text \<open>
  The other revisions, for comparison. After the same encoder failure the simple revision
  schedules the upload and the first output, not the output of attempt 1. The retry
  revision answers nothing when the request has no file.
\<close>

lemma simple_cleanup_after_encoder_failure:
  "cleanup (upload_simple default_config
      (mock_world 30 [Some (12 * MB), Some (12 * MB), None]) sample_request) =
     [Upload ''tmp/3f9a'', TmpOut 1700000000000 First (outName (Some ''clip.mov''))] \<and>
   map outputLocation (invoked (upload_simple default_config
      (mock_world 30 [Some (12 * MB), Some (12 * MB), None]) sample_request)) =
     [TmpOut 1700000000000 First (outName (Some ''clip.mov'')),
      TmpOut 1700000000001 (Pass 1) (outName (Some ''clip.mov'')),
      TmpOut 1700000000002 (Pass 2) (outName (Some ''clip.mov''))]"
  by (simp add: upload_simple_def Let_def mock_defs passes_def plan_eval
      cleanupLater_def)

lemma retry_without_file:
  "reply (upload_retry cfg w \<lparr>file_field = None\<rparr>) = None"
  by (simp add: upload_retry_def)


section \<open>The admission queue\<close>

lemma arrivals_append [simp]: "arrivals (xs @ ys) = arrivals xs @ arrivals ys"
  by (simp add: arrivals_def)

lemma starts_append [simp]: "starts (xs @ ys) = starts xs @ starts ys"
  by (simp add: starts_def)

lemma arrivals_single [simp]:
  "arrivals [Arrived j] = [j]" "arrivals [Started j] = []" "arrivals [Released j] = []"
  "arrivals [StreamBegun j] = []" "arrivals [Answered500 j] = []"
  by (simp_all add: arrivals_def)

lemma starts_single [simp]:
  "starts [Arrived j] = []" "starts [Started j] = [j]" "starts [Released j] = []"
  "starts [StreamBegun j] = []" "starts [Answered500 j] = []"
  by (simp_all add: starts_def)

text \<open>Appending an event that is no answer keeps the order of releases and answers.\<close>

lemma answers_snoc:
  assumes "\<forall>k<length es. \<forall>j. es ! k = StreamBegun j \<or> es ! k = Answered500 j \<longrightarrow>
             Released j \<in> set (take k es)"
    and "\<forall>j. e = StreamBegun j \<or> e = Answered500 j \<longrightarrow> Released j \<in> set es"
  shows "\<forall>k<length (es @ [e]). \<forall>j.
           (es @ [e]) ! k = StreamBegun j \<or> (es @ [e]) ! k = Answered500 j \<longrightarrow>
           Released j \<in> set (take k (es @ [e]))"
proof (intro allI impI)
  fix k j
  assume k: "k < length (es @ [e])"
    and a: "(es @ [e]) ! k = StreamBegun j \<or> (es @ [e]) ! k = Answered500 j"
  show "Released j \<in> set (take k (es @ [e]))"
  proof (cases "k < length es")
    case True
    with a have "es ! k = StreamBegun j \<or> es ! k = Answered500 j" by (simp add: nth_append)
    with assms(1) True have "Released j \<in> set (take k es)" by blast
    with True show ?thesis by simp
  next
    case False
    with k have ke: "k = length es" by simp
    with a have "e = StreamBegun j \<or> e = Answered500 j" by simp
    with assms(2) have "Released j \<in> set es" by blast
    with ke show ?thesis by simp
  qed
qed

lemma initial_inv: "queue_inv C initial"
  by (simp add: queue_inv_def initial_def arrivals_def starts_def)

lemma pump_inv:
  assumes "queue_inv C s"
  shows "queue_inv C (pump C s)"
proof (cases "running s \<ge> C \<or> length (queue s) = 0")
  case True
  with assms show ?thesis by (simp add: pump_def)
next
  case False
  then obtain j q where q: "queue s = j # q" by (cases "queue s") auto
  from False have r: "running s < C" by simp
  have p: "pump C s = s\<lparr>queue := q, running := running s + 1, inflight := inflight s @ [j],
                         trace := trace s @ [Started j]\<rparr>"
    using False q by (simp add: pump_def)
  from assms have a: "\<forall>k<length (trace s @ [Started j]). \<forall>i.
           (trace s @ [Started j]) ! k = StreamBegun i \<or> (trace s @ [Started j]) ! k = Answered500 i \<longrightarrow>
           Released i \<in> set (take k (trace s @ [Started j]))"
    by (intro answers_snoc) (simp_all add: queue_inv_def)
  from assms r q a show ?thesis
    unfolding p queue_inv_def by simp
qed

lemma enqueue_inv:
  assumes "queue_inv C s"
  shows "queue_inv C (enqueue C j s)"
proof -
  from assms have a: "\<forall>k<length (trace s @ [Arrived j]). \<forall>i.
           (trace s @ [Arrived j]) ! k = StreamBegun i \<or> (trace s @ [Arrived j]) ! k = Answered500 i \<longrightarrow>
           Released i \<in> set (take k (trace s @ [Arrived j]))"
    by (intro answers_snoc) (simp_all add: queue_inv_def)
  from assms a have "queue_inv C (s\<lparr>queue := queue s @ [j], trace := trace s @ [Arrived j]\<rparr>)"
    unfolding queue_inv_def by simp
  then show ?thesis
    unfolding enqueue_def by (rule pump_inv)
qed

lemma pump_fields:
  "settled (pump C s) = settled s \<and> set (trace s) \<subseteq> set (trace (pump C s))"
  by (auto simp: pump_def)

lemma settle_inv:
  assumes "queue_inv C s" and "j \<in> set (inflight s)"
  shows "queue_inv C (settle C j ok s)"
proof -
  let ?s1 = "s\<lparr>running := running s - 1, inflight := remove1 j (inflight s),
               trace := trace s @ [Released j]\<rparr>"
  from assms(1) have a: "\<forall>k<length (trace s @ [Released j]). \<forall>i.
           (trace s @ [Released j]) ! k = StreamBegun i \<or> (trace s @ [Released j]) ! k = Answered500 i \<longrightarrow>
           Released i \<in> set (take k (trace s @ [Released j]))"
    by (intro answers_snoc) (simp_all add: queue_inv_def)
  from assms(2) obtain n where n: "length (inflight s) = Suc n"
    by (cases "inflight s") auto
  with assms(2) have l: "int (length (remove1 j (inflight s))) = int (length (inflight s)) - 1"
    by (simp add: length_remove1)
  have "queue_inv C ?s1"
    unfolding queue_inv_def
  proof (intro conjI)
    show "running ?s1 = int (length (inflight ?s1))"
      using assms(1) l by (simp add: queue_inv_def)
    show "running ?s1 \<le> max 0 C"
      using assms(1) by (simp add: queue_inv_def)
    show "arrivals (trace ?s1) = starts (trace ?s1) @ queue ?s1"
      using assms(1) by (simp add: queue_inv_def)
    show "\<forall>j ok. (j, ok) \<in> set (settled ?s1) \<longrightarrow> Released j \<in> set (trace ?s1)"
      using assms(1) by (simp add: queue_inv_def)
    show "\<forall>k<length (trace ?s1). \<forall>j.
        trace ?s1 ! k = StreamBegun j \<or> trace ?s1 ! k = Answered500 j \<longrightarrow>
        Released j \<in> set (take k (trace ?s1))"
      using a by simp
  qed
  then have i2: "queue_inv C (pump C ?s1)" by (rule pump_inv)
  have rel: "Released j \<in> set (trace (pump C ?s1))"
    using pump_fields [of C ?s1] by auto
  from i2 rel have "queue_inv C ((pump C ?s1)\<lparr>settled := settled (pump C ?s1) @ [(j, ok)]\<rparr>)"
    unfolding queue_inv_def by auto
  then show ?thesis
    unfolding settle_def Let_def .
qed

lemma resume_inv:
  assumes "queue_inv C s" and "(j, ok) \<in> set (settled s)"
  shows "queue_inv C (resume j ok s)"
proof -
  let ?e = "if ok then StreamBegun j else Answered500 j"
  from assms(1) have st: "\<forall>j ok. (j, ok) \<in> set (settled s) \<longrightarrow> Released j \<in> set (trace s)"
    by (simp add: queue_inv_def)
  with assms(2) have rel: "Released j \<in> set (trace s)" by blast
  from assms(1) rel have a: "\<forall>k<length (trace s @ [?e]). \<forall>i.
           (trace s @ [?e]) ! k = StreamBegun i \<or> (trace s @ [?e]) ! k = Answered500 i \<longrightarrow>
           Released i \<in> set (take k (trace s @ [?e]))"
    by (intro answers_snoc) (auto simp: queue_inv_def)
  have sub: "set (remove1 (j, ok) (settled s)) \<subseteq> set (settled s)"
    by (rule set_remove1_subset)
  have b: "\<forall>j' ok'. (j', ok') \<in> set (remove1 (j, ok) (settled s)) \<longrightarrow>
             Released j' \<in> set (trace s @ [?e])"
    using sub st by fastforce
  show ?thesis
    unfolding queue_inv_def resume_def
  proof (intro conjI)
    let ?s' = "s\<lparr>settled := remove1 (j, ok) (settled s), trace := trace s @ [?e]\<rparr>"
    show "running ?s' = int (length (inflight ?s'))"
      using assms(1) by (simp add: queue_inv_def)
    show "running ?s' \<le> max 0 C"
      using assms(1) by (simp add: queue_inv_def)
    show "arrivals (trace ?s') = starts (trace ?s') @ queue ?s'"
      using assms(1) by (cases ok) (simp_all add: queue_inv_def)
    show "\<forall>j ok. (j, ok) \<in> set (settled ?s') \<longrightarrow> Released j \<in> set (trace ?s')"
      using b by simp
    show "\<forall>k<length (trace ?s'). \<forall>j.
        trace ?s' ! k = StreamBegun j \<or> trace ?s' ! k = Answered500 j \<longrightarrow>
        Released j \<in> set (take k (trace ?s'))"
      using a by simp
  qed
qed

lemma step_inv:
  "queue_inv C s \<Longrightarrow> step C a s = Some s' \<Longrightarrow> queue_inv C s'"
  by (cases a) (auto simp: step_def enqueue_inv settle_inv resume_inv split: if_splits)

lemma run_inv:
  "queue_inv C s \<Longrightarrow> run C as s = Some s' \<Longrightarrow> queue_inv C s'"
proof (induction as arbitrary: s)
  case Nil
  then show ?case by simp
next
  case (Cons a as)
  from Cons.prems(2) obtain s1 where s1: "step C a s = Some s1" "run C as s1 = Some s'"
    by (auto split: option.splits)
  from step_inv [OF Cons.prems(1) s1(1)] have "queue_inv C s1" .
  from Cons.IH [OF this s1(2)] show ?case .
qed

text \<open>
  Claim C4. In every state the queue reaches from its start, with a capacity \<open>C\<close> that is
  not negative: the counter \<open>running\<close> is the number of jobs between their start and their
  release and is at most \<open>C\<close>; the jobs started so far, followed by the jobs still
  waiting, are the arrivals in arrival order, so jobs start first in, first out; and
  wherever the trace shows that the streaming of a job begins or that a job is answered
  with 500, the release of that job's slot stands earlier in the trace.
\<close>

theorem admission_queue:
  assumes "0 \<le> C" and "run C acts initial = Some s"
  shows "running s = int (length (inflight s)) \<and> int (length (inflight s)) \<le> C \<and>
         arrivals (trace s) = starts (trace s) @ queue s \<and>
         (\<forall>pre post j. trace s = pre @ StreamBegun j # post \<or> trace s = pre @ Answered500 j # post
            \<longrightarrow> Released j \<in> set pre)"
proof -
  from run_inv [OF initial_inv assms(2)] have i: "queue_inv C s" .
  have "Released j \<in> set pre"
    if t: "trace s = pre @ StreamBegun j # post \<or> trace s = pre @ Answered500 j # post"
    for pre post j
  proof -
    from t have k: "length pre < length (trace s)" by auto
    from t have n: "trace s ! length pre = StreamBegun j \<or> trace s ! length pre = Answered500 j"
      by auto
    from t have p: "take (length pre) (trace s) = pre" by auto
    from i k n have "Released j \<in> set (take (length pre) (trace s))"
      unfolding queue_inv_def by blast
    then show ?thesis unfolding p .
  qed
  with i assms(1) show ?thesis
    unfolding queue_inv_def by auto
qed

theorem admission_queue_witness:
  "CONCURRENCY default_config = 1 \<and>
   run 1 [Enqueue 1, Enqueue 2, Settle 1 True, Resume 1 True, Settle 2 False, Enqueue 3,
          Resume 2 False] initial =
     Some \<lparr>queue = [], running = 1, inflight = [3], settled = [],
           trace = [Arrived 1, Started 1, Arrived 2, Released 1, Started 2, StreamBegun 1,
                    Released 2, Arrived 3, Started 3, Answered500 2]\<rparr> \<and>
   int (length [3 :: nat]) \<le> 1 \<and>
   arrivals [Arrived 1, Started 1, Arrived 2, Released 1, Started 2, StreamBegun 1,
             Released 2, Arrived 3, Started 3, Answered500 2] = [1, 2, 3] \<and>
   Released 1 \<in> set [Arrived 1, Started 1, Arrived 2, Released 1, Started 2]"
proof -
  let ?s = "\<lparr>queue = [], running = 1, inflight = [3], settled = [],
           trace = [Arrived 1, Started 1, Arrived 2, Released 1, Started 2, StreamBegun 1,
                    Released 2, Arrived 3, Started 3, Answered500 2]\<rparr>"
  have r: "run 1 [Enqueue 1, Enqueue 2, Settle 1 True, Resume 1 True, Settle 2 False, Enqueue 3,
          Resume 2 False] initial = Some ?s"
    by (simp add: step_def enqueue_def pump_def settle_def resume_def initial_def Let_def)
  have c: "(0 :: int) \<le> 1" by simp
  note t = admission_queue [OF c r]
  from t have a: "int (length [3 :: nat]) \<le> 1" by simp
  from t have "arrivals (trace ?s) = starts (trace ?s) @ queue ?s" by blast
  then have b: "arrivals [Arrived 1, Started 1, Arrived 2, Released 1, Started 2, StreamBegun 1,
             Released 2, Arrived 3, Started 3, Answered500 2] = [1, 2, 3]"
    by (simp add: starts_def)
  have "trace ?s = [Arrived 1, Started 1, Arrived 2, Released 1, Started 2] @ StreamBegun 1 #
      [Released 2, Arrived 3, Started 3, Answered500 2]"
    by simp
  with t have d: "Released 1 \<in> set [Arrived 1, Started 1, Arrived 2, Released 1, Started 2]"
    by blast
  have e: "CONCURRENCY default_config = 1" by (simp add: default_config_def)
  from r a b d e show ?thesis by (intro conjI)
qed

end
